theory Spec2Isabelle
  imports Complex_Main "HOL-Library.Sublist"
begin

section \<open>Strings\<close>

text \<open>
  A Python \<open>str\<close> is modelled as a \<open>string\<close>; a \<open>char\<close> is read as the code point
  of the same number (0 to 255).  The predicates below are Python's own on these code
  points: \<open>str.isspace\<close>, which is also the class \<open>\s\<close> of \<open>re\<close> on a \<open>str\<close>
  pattern, and the ASCII ranges \<open>[A-Z]\<close> and \<open>[0-9]\<close>.
\<close>

definition is_space :: "char \<Rightarrow> bool" where
  "is_space c =
     (let n = (of_char c :: nat)
      in (9 \<le> n \<and> n \<le> 13) \<or> (28 \<le> n \<and> n \<le> 32) \<or> n = 133 \<or> n = 160)"

definition is_upper_AZ :: "char \<Rightarrow> bool" where
  "is_upper_AZ c = (let n = (of_char c :: nat) in 65 \<le> n \<and> n \<le> 90)"

definition is_digit_09 :: "char \<Rightarrow> bool" where
  "is_digit_09 c = (let n = (of_char c :: nat) in 48 \<le> n \<and> n \<le> 57)"

text \<open>\<open>str.lower\<close>: on the code points below 256 the letters with a lower case are
  \<open>A-Z\<close> and \<open>U+00C0-U+00DE\<close> without the multiplication sign, 32 below their
  lower case.\<close>

definition lower_char :: "char \<Rightarrow> char" where
  "lower_char c =
     (let n = (of_char c :: nat)
      in if (65 \<le> n \<and> n \<le> 90) \<or> (192 \<le> n \<and> n \<le> 222 \<and> n \<noteq> 215)
         then char_of (n + 32) else c)"

definition str_lower :: "string \<Rightarrow> string" where
  "str_lower s = map lower_char s"

text \<open>\<open>str.upper\<close>: \<open>a-z\<close> and \<open>U+00E0-U+00FE\<close> without the division sign go 32
  down, and the sharp s becomes \<open>SS\<close>.  The micro sign and the y with diaeresis have
  their upper case beyond 255; they are left as they are here, which keeps every
  comparison of the result with an ASCII word as Python decides it.\<close>

definition upper_char :: "char \<Rightarrow> string" where
  "upper_char c =
     (let n = (of_char c :: nat)
      in if (97 \<le> n \<and> n \<le> 122) \<or> (224 \<le> n \<and> n \<le> 254 \<and> n \<noteq> 247)
         then [char_of (n - 32)]
         else if n = 223 then ''SS'' else [c])"

definition str_upper :: "string \<Rightarrow> string" where
  "str_upper s = concat (map upper_char s)"

text \<open>\<open>s.strip()\<close>, \<open>s.rstrip(":")\<close>, \<open>sep.join(xs)\<close>, \<open>s.split(sep)\<close> on a
  one-character separator, and \<open>sub in s\<close>.\<close>

definition strip :: "string \<Rightarrow> string" where
  "strip s = rev (dropWhile is_space (rev (dropWhile is_space s)))"

definition rstrip_colon :: "string \<Rightarrow> string" where
  "rstrip_colon s = rev (dropWhile (\<lambda>c. c = CHR '':'') (rev s))"

fun join :: "string \<Rightarrow> string list \<Rightarrow> string" where
  "join sep [] = []"
| "join sep [x] = x"
| "join sep (x # y # ys) = x @ sep @ join sep (y # ys)"

fun split_acc :: "char \<Rightarrow> string \<Rightarrow> string \<Rightarrow> string list" where
  "split_acc sep acc [] = [rev acc]"
| "split_acc sep acc (c # cs) =
     (if c = sep then rev acc # split_acc sep [] cs else split_acc sep (c # acc) cs)"

definition split :: "char \<Rightarrow> string \<Rightarrow> string list" where
  "split sep s = split_acc sep [] s"

fun str_in :: "string \<Rightarrow> string \<Rightarrow> bool" where
  "str_in sub [] = (sub = [])"
| "str_in sub (c # cs) = (prefix sub (c # cs) \<or> str_in sub cs)"

text \<open>\<open>re.sub(r"\s+", " ", s)\<close>: every maximal run of white space becomes one blank.
  The flag says that the character before was white space.\<close>

fun sub_ws :: "bool \<Rightarrow> string \<Rightarrow> string" where
  "sub_ws in_run [] = []"
| "sub_ws in_run (c # cs) =
     (if is_space c then (if in_run then sub_ws True cs else CHR '' '' # sub_ws True cs)
      else c # sub_ws False cs)"

definition norm_space :: "string \<Rightarrow> string" where
  "norm_space s = strip (sub_ws False s)"

section \<open>Regular expressions\<close>

text \<open>
  The patterns of the script use character classes, bounded and unbounded repetition
  of a class (greedy or lazy), groups, one alternation and the anchors.  Python's
  \<open>re\<close> is a backtracking matcher: it explores the ways to match in a fixed order of
  preference and returns the first that succeeds.  \<open>ms r st\<close> lists, in that order,
  the states in which \<open>r\<close> can end when started in \<open>st\<close>; a state is the position,
  the rest of the subject and the groups captured so far.
\<close>

datatype cset =
    Space
  | Upper
  | Digit
  | UpperDigit
  | Dot
  | Lit char
  | NoneOf "char list"

fun cmatch :: "cset \<Rightarrow> char \<Rightarrow> bool" where
  "cmatch Space c = is_space c"
| "cmatch Upper c = is_upper_AZ c"
| "cmatch Digit c = is_digit_09 c"
| "cmatch UpperDigit c = (is_upper_AZ c \<or> is_digit_09 c)"
| "cmatch Dot c = (c \<noteq> CHR 0x0A)"
| "cmatch (Lit a) c = (c = a)"
| "cmatch (NoneOf as) c = (c \<notin> set as)"

datatype regex =
    Eps
  | Bol
  | Eol
  | Chr cset
  | Rep cset nat "nat option" bool
  | Seq regex regex
  | Alt regex regex
  | Grp nat regex

type_synonym groups = "nat \<Rightarrow> string option"
type_synonym mstate = "nat \<times> string \<times> groups"

text \<open>\<open>rep c lo hi greedy\<close>: between \<open>lo\<close> and \<open>hi\<close> characters of class \<open>c\<close>
  (\<open>None\<close>: no upper bound); a greedy repetition prefers one more character, a lazy one
  prefers to stop.\<close>

fun rep :: "cset \<Rightarrow> nat \<Rightarrow> nat option \<Rightarrow> bool \<Rightarrow> nat \<Rightarrow> groups \<Rightarrow> string \<Rightarrow> mstate list" where
  "rep c lo hi greedy pos g [] = (if lo = 0 then [(pos, [], g)] else [])"
| "rep c lo hi greedy pos g (x # xs) =
     (let more = (if cmatch c x \<and> hi \<noteq> Some 0
                  then rep c (lo - 1) (map_option (\<lambda>h. h - 1) hi) greedy (Suc pos) g xs
                  else []);
          stop = (if lo = 0 then [(pos, x # xs, g)] else [])
      in if greedy then more @ stop else stop @ more)"

fun ms :: "regex \<Rightarrow> mstate \<Rightarrow> mstate list" where
  "ms Eps st = [st]"
| "ms Bol (pos, s, g) = (if pos = 0 then [(pos, s, g)] else [])"
| "ms Eol (pos, s, g) = (if s = [] \<or> s = [CHR 0x0A] then [(pos, s, g)] else [])"
| "ms (Chr c) (pos, s, g) =
     (case s of [] \<Rightarrow> [] | x # xs \<Rightarrow> if cmatch c x then [(Suc pos, xs, g)] else [])"
| "ms (Rep c lo hi greedy) (pos, s, g) = rep c lo hi greedy pos g s"
| "ms (Seq a b) st = concat (map (ms b) (ms a st))"
| "ms (Alt a b) st = ms a st @ ms b st"
| "ms (Grp n r) (pos, s, g) =
     map (\<lambda>(pos', s', g'). (pos', s', g'(n \<mapsto> take (pos' - pos) s))) (ms r (pos, s, g))"

definition seq :: "regex list \<Rightarrow> regex" where
  "seq rs = foldr Seq rs Eps"

text \<open>\<open>pattern.match(s)\<close> starts at position 0 only; \<open>re.search\<close> takes the leftmost
  start that has a match.  Both give the groups of the preferred match.\<close>

definition re_match :: "regex \<Rightarrow> string \<Rightarrow> groups option" where
  "re_match r s = (case ms r (0, s, Map.empty) of [] \<Rightarrow> None | (_, _, g) # _ \<Rightarrow> Some g)"

fun search_from :: "regex \<Rightarrow> nat \<Rightarrow> string \<Rightarrow> groups option" where
  "search_from r pos [] =
     (case ms r (pos, [], Map.empty) of [] \<Rightarrow> None | (_, _, g) # _ \<Rightarrow> Some g)"
| "search_from r pos (c # cs) =
     (case ms r (pos, c # cs, Map.empty) of
        [] \<Rightarrow> search_from r (Suc pos) cs
      | (_, _, g) # _ \<Rightarrow> Some g)"

definition re_search :: "regex \<Rightarrow> string \<Rightarrow> groups option" where
  "re_search r s = search_from r 0 s"

text \<open>\<open>m.group(n)\<close> of a group that took part in the match.\<close>

definition group :: "groups \<Rightarrow> nat \<Rightarrow> string" where
  "group g n = (case g n of None \<Rightarrow> [] | Some s \<Rightarrow> s)"

text \<open>\<^verbatim>\<open>^\s*([A-Z]{2,10})\s+([0-9]{1,3}[A-Z0-9]{0,6})\s*\.\s*(.+?)\s*$\<close>\<close>

definition COURSE_HEADER_RE :: regex where
  "COURSE_HEADER_RE = seq
     [Bol, Rep Space 0 None True,
      Grp 1 (Rep Upper 2 (Some 10) True),
      Rep Space 1 None True,
      Grp 2 (Seq (Rep Digit 1 (Some 3) True) (Rep UpperDigit 0 (Some 6) True)),
      Rep Space 0 None True, Chr (Lit CHR ''.''), Rep Space 0 None True,
      Grp 3 (Rep Dot 1 None False),
      Rep Space 0 None True, Eol]"

text \<open>\<^verbatim>\<open>^\s*([A-Z]{2,10})\s+([0-9]{1,3}[A-Z0-9]{0,6})\s*$\<close>\<close>

definition COURSE_CODE_ONLY_RE :: regex where
  "COURSE_CODE_ONLY_RE = seq
     [Bol, Rep Space 0 None True,
      Grp 1 (Rep Upper 2 (Some 10) True),
      Rep Space 1 None True,
      Grp 2 (Seq (Rep Digit 1 (Some 3) True) (Rep UpperDigit 0 (Some 6) True)),
      Rep Space 0 None True, Eol]"

text \<open>\<^verbatim>\<open>^\(([^)]+)\)\s*(.*)$\<close>\<close>

definition UNITS_RE :: regex where
  "UNITS_RE = seq
     [Bol, Chr (Lit CHR ''(''),
      Grp 1 (Rep (NoneOf '')'') 1 None True),
      Chr (Lit CHR '')''), Rep Space 0 None True,
      Grp 2 (Rep Dot 0 None True), Eol]"

text \<open>\<^verbatim>\<open>([A-Z]{2,10})\s+([0-9]{1,3}[A-Z0-9]{0,6})\s*\.\s*([^()]+?)\s*(\(|$)\<close>\<close>

definition HEADER_ANYWHERE_RE :: regex where
  "HEADER_ANYWHERE_RE = seq
     [Grp 1 (Rep Upper 2 (Some 10) True),
      Rep Space 1 None True,
      Grp 2 (Seq (Rep Digit 1 (Some 3) True) (Rep UpperDigit 0 (Some 6) True)),
      Rep Space 0 None True, Chr (Lit CHR ''.''), Rep Space 0 None True,
      Grp 3 (Rep (NoneOf ''()'') 1 None False),
      Rep Space 0 None True,
      Grp 4 (Alt (Chr (Lit CHR ''('')) Eol)]"

section \<open>The parsed document\<close>

text \<open>
  What \<open>BeautifulSoup(html, "html.parser")\<close> builds: a tree of tags and strings.  A
  tag has its name (the parser gives it in lower case), its \<open>id\<close> attribute, the
  list of its classes and its contents.  \<open>NavStr\<close> is a string that \<open>get_text\<close>
  reads (a \<open>NavigableString\<close> or \<open>CData\<close>); \<open>Special\<close> is one that it passes over
  (a comment, a declaration, a doctype, a processing instruction), though \<open>str\<close> of
  it is still its text.  The document itself is a tag without an \<open>id\<close>.
\<close>

datatype node =
    Tag (name: string) (tag_id: "string option") (classes: "string list") (contents: "node list")
  | NavStr string
  | Special string

text \<open>Every node below the given siblings, in document order, each with its
  \<open>next_siblings\<close>.\<close>

fun nodes_sibs :: "node list \<Rightarrow> (node \<times> node list) list" where
  "nodes_sibs [] = []"
| "nodes_sibs (Tag n i c ch # rest) =
     (Tag n i c ch, rest) # nodes_sibs ch @ nodes_sibs rest"
| "nodes_sibs (NavStr s # rest) = (NavStr s, rest) # nodes_sibs rest"
| "nodes_sibs (Special s # rest) = (Special s, rest) # nodes_sibs rest"

definition children :: "node \<Rightarrow> node list" where
  "children t = (case t of Tag n i c ch \<Rightarrow> ch | _ \<Rightarrow> [])"

definition descendants :: "node \<Rightarrow> node list" where
  "descendants t = map fst (nodes_sibs (children t))"

definition is_tag :: "string \<Rightarrow> node \<Rightarrow> bool" where
  "is_tag nm t = (case t of Tag n i c ch \<Rightarrow> n = nm | _ \<Rightarrow> False)"

definition has_class :: "string \<Rightarrow> node \<Rightarrow> bool" where
  "has_class cl t = (case t of Tag n i c ch \<Rightarrow> cl \<in> set c | _ \<Rightarrow> False)"

definition id_endswith :: "string \<Rightarrow> node \<Rightarrow> bool" where
  "id_endswith sfx t =
     (case t of Tag n (Some i) c ch \<Rightarrow> suffix sfx i | _ \<Rightarrow> False)"

text \<open>\<open>t.get_text(" ", strip=True)\<close>: the strings below \<open>t\<close>, each stripped, the
  empty ones dropped, joined by one blank.\<close>

fun nav_string :: "node \<Rightarrow> string list" where
  "nav_string (NavStr s) = [s]"
| "nav_string _ = []"

definition get_text :: "node \<Rightarrow> string" where
  "get_text t =
     join '' '' (filter (\<lambda>s. s \<noteq> []) (map strip (concat (map nav_string (descendants t)))))"

text \<open>\<open>t.find(name)\<close>, \<open>t.find_all(name)\<close> and \<open>t.select_one("name.class")\<close> look
  at the descendants of \<open>t\<close>, in document order.\<close>

definition find_tag :: "string \<Rightarrow> node \<Rightarrow> node option" where
  "find_tag nm t = List.find (is_tag nm) (descendants t)"

definition find_all :: "string \<Rightarrow> node \<Rightarrow> node list" where
  "find_all nm t = filter (is_tag nm) (descendants t)"

definition select_one_class :: "string \<Rightarrow> string \<Rightarrow> node \<Rightarrow> node option" where
  "select_one_class nm cl t = List.find (\<lambda>d. is_tag nm d \<and> has_class cl d) (descendants t)"

text \<open>A course block is a \<open>div.CourseDisplay\<close> tag of a document together with its
  \<open>parents\<close>, the nearest first and the document last.\<close>

record block =
  parents :: "node list"
  elem :: node

fun select_blocks :: "node list \<Rightarrow> node list \<Rightarrow> block list" where
  "select_blocks anc [] = []"
| "select_blocks anc (Tag n i c ch # rest) =
     (if n = ''div'' \<and> ''CourseDisplay'' \<in> set c
      then [\<lparr>parents = anc, elem = Tag n i c ch\<rparr>] else [])
     @ select_blocks (Tag n i c ch # anc) ch @ select_blocks anc rest"
| "select_blocks anc (NavStr s # rest) = select_blocks anc rest"
| "select_blocks anc (Special s # rest) = select_blocks anc rest"

text \<open>\<open>soup.select("div.CourseDisplay")\<close>\<close>

definition select_course_displays :: "node \<Rightarrow> block list" where
  "select_course_displays soup = select_blocks [soup] (children soup)"

section \<open>The field parsers\<close>

definition find_level_group_id :: "string \<Rightarrow> string option" where
  "find_level_group_id pid =
     (if str_in ''rptrlowerdivisioncourses'' pid then Some ''Lower Division''
      else if str_in ''rptrupperdivisioncourses'' pid then Some ''Upper Division''
      else if str_in ''rptrgraduatedivisioncourses'' pid then Some ''Graduate Division''
      else None)"

fun find_level_group_in :: "node list \<Rightarrow> string option" where
  "find_level_group_in [] = None"
| "find_level_group_in (p # ps) =
     (case p of
        Tag n i c ch \<Rightarrow>
          (case find_level_group_id (str_lower (case i of None \<Rightarrow> [] | Some s \<Rightarrow> s)) of
             Some lv \<Rightarrow> Some lv
           | None \<Rightarrow> find_level_group_in ps)
      | _ \<Rightarrow> find_level_group_in ps)"

definition find_level_group :: "block \<Rightarrow> string option" where
  "find_level_group course_div = find_level_group_in (parents course_div)"

definition instructors_of :: "string \<Rightarrow> string list" where
  "instructors_of instructors_txt =
     (if instructors_txt \<noteq> [] then
        (if str_upper instructors_txt = ''STAFF'' then [''STAFF'']
         else map norm_space (filter (\<lambda>x. norm_space x \<noteq> []) (split CHR '';'' instructors_txt)))
      else [])"

definition parse_units_and_instructors :: "block \<Rightarrow> string option \<times> string list" where
  "parse_units_and_instructors course_div =
     (case select_one_class ''span'' ''InstructorUnits'' (elem course_div) of
        None \<Rightarrow> (None, [])
      | Some span_tag \<Rightarrow>
          (let txt = norm_space (get_text span_tag)
           in case re_match UNITS_RE txt of
                Some m \<Rightarrow> (Some (norm_space (group m 1)), instructors_of (norm_space (group m 2)))
              | None \<Rightarrow> (None, instructors_of txt)))"

definition wanted :: "string \<rightharpoonup> string" where
  "wanted = map_of
     [(''prerequisite'', ''prerequisites_raw''),
      (''prerequisites'', ''prerequisites_raw''),
      (''recommended preparation'', ''recommended_preparation_raw''),
      (''enrollment comments'', ''enrollment_comments_raw''),
      (''repeat comments'', ''repeat_comments_raw''),
      (''cross-listed'', ''cross_listed_raw''),
      (''crosslisted'', ''cross_listed_raw'')]"

text \<open>The inner loop over \<open>strong.next_siblings\<close>, with its two \<open>break\<close>s.\<close>

fun sibling_parts :: "node list \<Rightarrow> string list" where
  "sibling_parts [] = []"
| "sibling_parts (Tag n i c ch # rest) =
     (if n = ''strong'' then []
      else if n = ''br'' then []
      else norm_space (get_text (Tag n i c ch)) # sibling_parts rest)"
| "sibling_parts (NavStr s # rest) = norm_space s # sibling_parts rest"
| "sibling_parts (Special s # rest) = norm_space s # sibling_parts rest"

definition label_of :: "node \<Rightarrow> string" where
  "label_of strong = str_lower (rstrip_colon (norm_space (get_text strong)))"

definition sibling_value :: "node list \<Rightarrow> string" where
  "sibling_value sibs = norm_space (join '' '' (filter (\<lambda>p. p \<noteq> []) (sibling_parts sibs)))"

text \<open>The dictionary \<open>out\<close>: its five keys are fixed, and a key at \<open>None\<close> (Python's
  \<open>None\<close>) is a key the map leaves out.\<close>

fun labeled_loop :: "(node \<times> node list) list \<Rightarrow> (string \<rightharpoonup> string) \<Rightarrow> (string \<rightharpoonup> string)" where
  "labeled_loop [] out = out"
| "labeled_loop ((strong, sibs) # todo) out =
     (case wanted (label_of strong) of
        None \<Rightarrow> labeled_loop todo out
      | Some key \<Rightarrow>
          (let val = sibling_value sibs
           in if val \<noteq> [] then labeled_loop todo (out(key \<mapsto> val))
              else labeled_loop todo out))"

definition strongs :: "block \<Rightarrow> (node \<times> node list) list" where
  "strongs course_div =
     filter (\<lambda>(t, sibs). is_tag ''strong'' t) (nodes_sibs (children (elem course_div)))"

definition extract_labeled_fields :: "block \<Rightarrow> (string \<rightharpoonup> string)" where
  "extract_labeled_fields course_div = labeled_loop (strongs course_div) Map.empty"

text \<open>\<open>txt.split(".", 1)\<close> of a text with a period in it.\<close>

definition split_first :: "char \<Rightarrow> string \<Rightarrow> string \<times> string" where
  "split_first sep s = (takeWhile (\<lambda>c. c \<noteq> sep) s, tl (dropWhile (\<lambda>c. c \<noteq> sep) s))"

definition header_of_match :: "groups \<Rightarrow> string \<times> string \<times> string" where
  "header_of_match m = (group m 1, group m 2, norm_space (group m 3))"

text \<open>The three attempts of \<open>extract_course_header\<close>; each returns or falls
  through to the next.\<close>

definition header_from_id_title :: "block \<Rightarrow> (string \<times> string \<times> string) option" where
  "header_from_id_title course_div =
     (case select_one_class ''span'' ''CourseIdAndTitle'' (elem course_div) of
        None \<Rightarrow> None
      | Some id_title \<Rightarrow>
          (let txt = norm_space (get_text id_title)
           in case re_match COURSE_HEADER_RE txt of
                Some m \<Rightarrow> Some (header_of_match m)
              | None \<Rightarrow>
                  if CHR ''.'' \<in> set txt then
                    (let (left, right) = split_first CHR ''.'' txt;
                         left = norm_space left;
                         title = norm_space right
                     in case re_match COURSE_CODE_ONLY_RE left of
                          Some m2 \<Rightarrow> if title \<noteq> [] then Some (group m2 1, group m2 2, title) else None
                        | None \<Rightarrow> None)
                  else None))"

definition header_from_first_b :: "block \<Rightarrow> (string \<times> string \<times> string) option" where
  "header_from_first_b course_div =
     (case find_tag ''b'' (elem course_div) of
        None \<Rightarrow> None
      | Some b \<Rightarrow>
          (case re_match COURSE_HEADER_RE (norm_space (get_text b)) of
             Some m \<Rightarrow> Some (header_of_match m)
           | None \<Rightarrow> None))"

definition header_from_full_text :: "block \<Rightarrow> (string \<times> string \<times> string) option" where
  "header_from_full_text course_div =
     (case re_search HEADER_ANYWHERE_RE (norm_space (get_text (elem course_div))) of
        None \<Rightarrow> None
      | Some m_any \<Rightarrow>
          (let subj = group m_any 1; num = group m_any 2; title = norm_space (group m_any 3)
           in if title \<noteq> [] then Some (subj, num, title) else None))"

definition extract_course_header :: "block \<Rightarrow> (string \<times> string \<times> string) option" where
  "extract_course_header course_div =
     (case header_from_id_title course_div of
        Some h \<Rightarrow> Some h
      | None \<Rightarrow>
          (case header_from_first_b course_div of
             Some h \<Rightarrow> Some h
           | None \<Rightarrow> header_from_full_text course_div))"

text \<open>The loop of \<open>extract_description\<close> over the \<open>div\<close>s of the container.\<close>

fun description_loop :: "node list \<Rightarrow> string \<Rightarrow> string" where
  "description_loop [] best_text = best_text"
| "description_loop (d # ds) best_text =
     (let txt = norm_space (get_text d)
      in if txt = [] then description_loop ds best_text
         else if str_in ''Prerequisite:'' txt \<or> str_in ''Recommended Preparation:'' txt
         then description_loop ds best_text
         else if length txt > length best_text then description_loop ds txt
         else description_loop ds best_text)"

definition description_container :: "block \<Rightarrow> node" where
  "description_container course_div =
     (case List.find (\<lambda>d. is_tag ''div'' d \<and> id_endswith ''nonchildcourseContainer'' d)
             (descendants (elem course_div)) of
        Some container \<Rightarrow> container
      | None \<Rightarrow> elem course_div)"

definition extract_description :: "block \<Rightarrow> string" where
  "extract_description course_div =
     description_loop (find_all ''div'' (description_container course_div)) []"

record course =
  subject :: string
  number :: string
  code :: string
  title :: string
  units :: "string option"
  level_group :: "string option"
  instructors :: "string list"
  prerequisites_raw :: "string option"
  recommended_preparation_raw :: "string option"
  enrollment_comments_raw :: "string option"
  repeat_comments_raw :: "string option"
  cross_listed_raw :: "string option"
  description :: string
  source_url :: string

definition parse_course :: "block \<Rightarrow> string \<Rightarrow> course option" where
  "parse_course course_div url =
     (case extract_course_header course_div of
        None \<Rightarrow> None
      | Some (subj, num, ttl) \<Rightarrow>
          (let (un, ins) = parse_units_and_instructors course_div;
               lg = find_level_group course_div;
               labeled = extract_labeled_fields course_div;
               descr = extract_description course_div
           in Some \<lparr>subject = subj, number = num, code = subj @ '' '' @ num, title = ttl,
                     units = un, level_group = lg, instructors = ins,
                     prerequisites_raw = labeled ''prerequisites_raw'',
                     recommended_preparation_raw = labeled ''recommended_preparation_raw'',
                     enrollment_comments_raw = labeled ''enrollment_comments_raw'',
                     repeat_comments_raw = labeled ''repeat_comments_raw'',
                     cross_listed_raw = labeled ''cross_listed_raw'',
                     description = descr, source_url = url\<rparr>))"

section \<open>The driver\<close>

definition URLS :: "string list" where
  "URLS =
     [''https://my.sa.ucsb.edu/catalog/2022-2023/CollegesDepartments/ls-intro/stats.aspx?DeptTab=Courses'',
      ''https://my.sa.ucsb.edu/catalog/2022-2023/CollegesDepartments/ls-intro/econ.aspx?DeptTab=Courses'',
      ''https://my.sa.ucsb.edu/catalog/2022-2023/CollegesDepartments/ls-intro/math.aspx?DeptTab=Courses'',
      ''https://my.sa.ucsb.edu/catalog/2022-2023/CollegesDepartments/coe/compsci-engr.aspx?DeptTab=Courses'',
      ''https://my.sa.ucsb.edu/catalog/2022-2023/CollegesDepartments/coe/ece.aspx?DeptTab=Courses'']"

datatype exn = HTTPError nat | Timeout | ConnectionError | ZeroDivisionError

text \<open>What the run does to the outside: the requests it sends, the files it writes
  (path and content, in order) and what it prints.\<close>

record bar_line =
  shown_current :: int
  shown_total :: int
  filled :: int
  percent :: rat

datatype console_line =
    Progress bar_line
  | Newline
  | Wrote nat string
  | SkippedBlocks int

record world =
  requests :: "string list"
  files :: "(string \<times> course list) list"
  console :: "console_line list"

text \<open>The two parameters of the driver are the network and the parser:
  \<open>get url\<close> is what \<open>requests.get\<close> does for the URL, an exception (a timeout, a
  connection error) or the final response with its status code and its text, and
  \<open>soup html\<close> is the document that \<open>BeautifulSoup\<close> builds from a text.\<close>

record response =
  status_code :: nat
  resp_text :: string

type_synonym http_get = "string \<Rightarrow> exn + response"
type_synonym parser = "string \<Rightarrow> node"

text \<open>\<open>Response.raise_for_status\<close> raises \<open>HTTPError\<close> for the client errors, 400 to
  499, and the server errors, 500 to 599, and returns for every other status.\<close>

definition raise_for_status :: "response \<Rightarrow> exn + unit" where
  "raise_for_status r =
     (if 400 \<le> status_code r \<and> status_code r < 500 then Inl (HTTPError (status_code r))
      else if 500 \<le> status_code r \<and> status_code r < 600 then Inl (HTTPError (status_code r))
      else Inr ())"

definition fetch :: "http_get \<Rightarrow> string \<Rightarrow> exn + string" where
  "fetch get url =
     (case get url of
        Inl e \<Rightarrow> Inl e
      | Inr r \<Rightarrow> (case raise_for_status r of Inl e \<Rightarrow> Inl e | Inr _ \<Rightarrow> Inr (resp_text r)))"

record progress_bar =
  total :: int
  width :: int
  current :: int

definition ProgressBar :: "int \<Rightarrow> int \<Rightarrow> progress_bar" where
  "ProgressBar t w = \<lparr>total = max t 1, width = w, current = 0\<rparr>"

text \<open>\<open>int(x)\<close> truncates towards zero.  The quotient \<open>current / total\<close> is a float
  in Python; here it is the exact rational, and the division raises on a zero divisor
  as Python's does.\<close>

definition py_int :: "rat \<Rightarrow> int" where
  "py_int x = (if 0 \<le> x then \<lfloor>x\<rfloor> else \<lceil>x\<rceil>)"

definition true_div :: "int \<Rightarrow> int \<Rightarrow> exn + rat" where
  "true_div a b = (if b = 0 then Inl ZeroDivisionError else Inr (of_int a / of_int b))"

definition update :: "progress_bar \<Rightarrow> int \<Rightarrow> world \<Rightarrow> (exn + progress_bar) \<times> world" where
  "update bar inc w =
     (let bar1 = bar\<lparr>current := current bar + inc\<rparr>
      in case true_div (current bar1) (total bar1) of
           Inl e \<Rightarrow> (Inl e, w)
         | Inr q \<Rightarrow>
             (let ratio = min q 1;
                  n = py_int (ratio * of_int (width bar1));
                  line = \<lparr>shown_current = current bar1, shown_total = total bar1,
                          filled = n, percent = ratio * 100\<rparr>
              in (Inr bar1, w\<lparr>console := console w @ [Progress line]\<rparr>)))"

definition finish :: "progress_bar \<Rightarrow> world \<Rightarrow> (exn + progress_bar) \<times> world" where
  "finish bar w =
     (case update bar 0 w of
        (Inl e, w1) \<Rightarrow> (Inl e, w1)
      | (Inr bar1, w1) \<Rightarrow> (Inr bar1, w1\<lparr>console := console w1 @ [Newline]\<rparr>))"

text \<open>First pass: the inner loop counts the blocks with a header.\<close>

fun count_headers :: "block list \<Rightarrow> int \<Rightarrow> int" where
  "count_headers [] total_est = total_est"
| "count_headers (cd # cds) total_est =
     (if extract_course_header cd \<noteq> None then count_headers cds (total_est + 1)
      else count_headers cds total_est)"

fun first_pass ::
  "http_get \<Rightarrow> parser \<Rightarrow> string list \<Rightarrow> (string \<times> string) list \<times> int \<Rightarrow> world
    \<Rightarrow> (exn + (string \<times> string) list \<times> int) \<times> world" where
  "first_pass get soup [] acc w = (Inr acc, w)"
| "first_pass get soup (url # urls) (pages, total_est) w =
     (let w1 = w\<lparr>requests := requests w @ [url]\<rparr>
      in case fetch get url of
           Inl e \<Rightarrow> (Inl e, w1)
         | Inr html \<Rightarrow>
             first_pass get soup urls
               (pages @ [(url, html)],
                count_headers (select_course_displays (soup html)) total_est) w1)"

text \<open>Second pass: the state of the loops is \<open>all_courses\<close>, \<open>skipped\<close> and the
  bar.\<close>

record tally =
  all_courses :: "course list"
  skipped :: int
  bar :: progress_bar

fun blocks_loop :: "string \<Rightarrow> block list \<Rightarrow> tally \<Rightarrow> world \<Rightarrow> (exn + tally) \<times> world" where
  "blocks_loop url [] t w = (Inr t, w)"
| "blocks_loop url (cd # cds) t w =
     (case parse_course cd url of
        None \<Rightarrow> blocks_loop url cds (t\<lparr>skipped := skipped t + 1\<rparr>) w
      | Some c \<Rightarrow>
          (case update (bar t) 1 w of
             (Inl e, w1) \<Rightarrow> (Inl e, w1)
           | (Inr bar1, w1) \<Rightarrow>
               blocks_loop url cds (t\<lparr>all_courses := all_courses t @ [c], bar := bar1\<rparr>) w1))"

fun pages_loop :: "parser \<Rightarrow> (string \<times> string) list \<Rightarrow> tally \<Rightarrow> world \<Rightarrow> (exn + tally) \<times> world" where
  "pages_loop soup [] t w = (Inr t, w)"
| "pages_loop soup ((url, html) # pages) t w =
     (case blocks_loop url (select_course_displays (soup html)) t w of
        (Inl e, w1) \<Rightarrow> (Inl e, w1)
      | (Inr t1, w1) \<Rightarrow> pages_loop soup pages t1 w1)"



section \<open>Auxiliary notions for the statements\<close>

text \<open>What the first pass adds to its counter over a list of fetched pages.\<close>

fun count_pages :: "parser \<Rightarrow> (string \<times> string) list \<Rightarrow> int \<Rightarrow> int" where
  "count_pages soup [] n = n"
| "count_pages soup ((url, html) # pages) n =
     count_pages soup pages (count_headers (select_course_displays (soup html)) n)"


text \<open>The upper bound of a repetition, \<open>None\<close> for none.\<close>

definition at_most_opt :: "nat option \<Rightarrow> nat \<Rightarrow> bool" where
  "at_most_opt hi n = (case hi of None \<Rightarrow> True | Some h \<Rightarrow> n \<le> h)"









text \<open>Units and instructors in the words of the specification: a text that begins
  with a parenthesized group gives the content of the group as the units and the
  remainder as the instructor text.\<close>

definition spec_units_split :: "string \<Rightarrow> string option \<times> string" where
  "spec_units_split txt =
     (case txt of
        [] \<Rightarrow> (None, txt)
      | x # rest \<Rightarrow>
          if x = CHR ''('' \<and> CHR '')'' \<in> set rest
          then (Some (takeWhile (\<lambda>y. y \<noteq> CHR '')'') rest),
                tl (dropWhile (\<lambda>y. y \<noteq> CHR '')'') rest))
          else (None, txt))"

definition spec_parse_units_and_instructors :: "block \<Rightarrow> string option \<times> string list" where
  "spec_parse_units_and_instructors course_div =
     (case select_one_class ''span'' ''InstructorUnits'' (elem course_div) of
        None \<Rightarrow> (None, [])
      | Some span_tag \<Rightarrow>
          (case spec_units_split (norm_space (get_text span_tag)) of
             (u, instructors_txt) \<Rightarrow> (u, instructors_of (norm_space instructors_txt))))"

text \<open>Sample inputs, used to run the statements below on concrete data.\<close>

definition sample_world :: world where
  "sample_world = \<lparr>requests = [], files = [], console = []\<rparr>"

definition sample_tally :: tally where
  "sample_tally = \<lparr>all_courses = [], skipped = 0, bar = ProgressBar 0 30\<rparr>"

definition sample_document :: node where
  "sample_document =
     Tag ''[document]'' None []
       [Tag ''div'' (Some ''ctl00_rptrUpperDivisionCourses_x'') []
          [Tag ''div'' None [''CourseDisplay'']
             [Tag ''span'' None [''CourseIdAndTitle'']
                [NavStr ''XYZ 100. '',
                 Tag ''span'' None [''CourseFullTitle''] [NavStr '' Intro to   Things '']],
              Tag ''span'' None [''InstructorUnits''] [NavStr ''(4-8) Smith, J.; Lee, K.'']],
           Tag ''div'' None [''CourseDisplay''] [NavStr ''nothing'']]]"

definition sample_block_no_header :: block where
  "sample_block_no_header =
     \<lparr>parents = [], elem = Tag ''div'' None [''CourseDisplay''] [NavStr ''nothing'']\<rparr>"

definition sample_block_two_divs :: block where
  "sample_block_two_divs =
     \<lparr>parents = [],
      elem = Tag ''div'' None [''CourseDisplay'']
        [Tag ''div'' None [] [NavStr ''Prerequisite: Mathematics 3A and a lot more.''],
         Tag ''div'' None [] [NavStr ''Sets and logic.'']]\<rparr>"

definition sample_get_ok :: http_get where
  "sample_get_ok url = Inr \<lparr>status_code = 200, resp_text = url\<rparr>"



definition sample_soup :: parser where
  "sample_soup html = sample_document"





definition sample_block_units_names :: block where
  "sample_block_units_names =
     \<lparr>parents = [],
      elem = Tag ''div'' None [''CourseDisplay'']
        [Tag ''span'' None [''InstructorUnits''] [NavStr ''(4-8)  Smith, J.; Lee, K.'']]\<rparr>"

definition sample_block_units_staff :: block where
  "sample_block_units_staff =
     \<lparr>parents = [],
      elem = Tag ''div'' None [''CourseDisplay'']
        [Tag ''span'' None [''InstructorUnits''] [NavStr ''(4) STAFF'']]\<rparr>"

definition sample_block_instructors_only :: block where
  "sample_block_instructors_only =
     \<lparr>parents = [],
      elem = Tag ''div'' None [''CourseDisplay'']
        [Tag ''span'' None [''InstructorUnits''] [NavStr ''Smith, J.; ; Lee, K.'']]\<rparr>"

definition sample_block_empty_units :: block where
  "sample_block_empty_units =
     \<lparr>parents = [],
      elem = Tag ''div'' None [''CourseDisplay'']
        [Tag ''span'' None [''InstructorUnits''] [NavStr ''() Smith, J.'']]\<rparr>"

definition sample_block_course :: block where
  "sample_block_course =
     \<lparr>parents = [Tag ''div'' (Some ''ctl00_rptrUpperDivisionCourses_x'') [] [],
                 Tag ''[document]'' None [] []],
      elem = Tag ''div'' None [''CourseDisplay'']
        [Tag ''span'' None [''CourseIdAndTitle'']
           [NavStr ''XYZ 100. '',
            Tag ''span'' None [''CourseFullTitle''] [NavStr '' Intro to   Things '']],
         Tag ''span'' None [''InstructorUnits''] [NavStr ''(4) STAFF'']]\<rparr>"

definition sample_course :: course where
  "sample_course =
     \<lparr>subject = ''XYZ'', number = ''100'', code = ''XYZ 100'', title = ''Intro to Things'',
      units = Some ''4'', level_group = Some ''Upper Division'', instructors = [''STAFF''],
      prerequisites_raw = None, recommended_preparation_raw = None,
      enrollment_comments_raw = None, repeat_comments_raw = None, cross_listed_raw = None,
      description = [], source_url = ''u''\<rparr>"

section \<open>Facts about the string functions\<close>

lemma str_in_sublist: "str_in sub s \<longleftrightarrow> sublist sub s"
  by (induction s) (auto simp: sublist_Cons_right)

lemma set_sub_ws: "set (sub_ws b s) \<subseteq> insert CHR '' '' {c \<in> set s. \<not> is_space c}"
  by (induction s arbitrary: b) auto

lemma sub_ws_spaces: "c \<in> set (sub_ws b s) \<Longrightarrow> is_space c \<Longrightarrow> c = CHR '' ''"
  using set_sub_ws[of b s] by auto

lemma set_strip: "set (strip s) \<subseteq> set s"
proof -
  have "set (strip s) \<subseteq> set (dropWhile is_space s)"
    unfolding strip_def using set_dropWhileD[of _ is_space "rev (dropWhile is_space s)"] by auto
  also have "\<dots> \<subseteq> set s" using set_dropWhileD by fastforce
  finally show ?thesis .
qed

lemma strip_Nil_iff: "strip s = [] \<longleftrightarrow> (\<forall>c \<in> set s. is_space c)"
proof
  assume "strip s = []"
  then have "\<forall>c \<in> set (dropWhile is_space s). is_space c"
    by (simp add: strip_def dropWhile_eq_Nil_conv)
  then have "dropWhile is_space s = []"
    by (metis hd_dropWhile list.set_sel(1))
  then show "\<forall>c \<in> set s. is_space c" by (simp add: dropWhile_eq_Nil_conv)
next
  assume "\<forall>c \<in> set s. is_space c"
  then have "dropWhile is_space s = []" by (simp add: dropWhile_eq_Nil_conv)
  then show "strip s = []" unfolding strip_def by (simp only: rev.simps dropWhile.simps)
qed

lemma strip_hd: "strip s \<noteq> [] \<Longrightarrow> \<not> is_space (hd (strip s))"
proof -
  assume a: "strip s \<noteq> []"
  let ?d = "dropWhile is_space s"
  have d: "?d \<noteq> []" using a by (cases "?d = []") (simp_all add: strip_def)
  then have h: "\<not> is_space (hd ?d)" by (rule hd_dropWhile)
  have "\<exists>ys. ?d = rev (dropWhile is_space (rev ?d)) @ ys"
    by (metis rev_append rev_rev_ident takeWhile_dropWhile_id)
  then obtain ys where ys: "?d = strip s @ ys" by (auto simp: strip_def)
  then have "hd ?d = hd (strip s)" using a by (metis hd_append2)
  with h show ?thesis by simp
qed

lemma strip_last: "strip s \<noteq> [] \<Longrightarrow> \<not> is_space (last (strip s))"
proof -
  assume a: "strip s \<noteq> []"
  let ?r = "dropWhile is_space (rev (dropWhile is_space s))"
  have "?r \<noteq> []" using a by (simp add: strip_def)
  then have "\<not> is_space (hd ?r)" by (rule hd_dropWhile)
  moreover have "last (strip s) = hd ?r" using \<open>?r \<noteq> []\<close> by (simp add: strip_def last_rev)
  ultimately show ?thesis by simp
qed

lemma sub_ws_all_space: "(\<forall>c \<in> set (sub_ws b s). is_space c) \<longleftrightarrow> (\<forall>c \<in> set s. is_space c)"
  by (induction s arbitrary: b) (auto simp: is_space_def)

lemma norm_space_Nil_iff: "norm_space s = [] \<longleftrightarrow> (\<forall>c \<in> set s. is_space c)"
  by (simp add: norm_space_def strip_Nil_iff sub_ws_all_space)

lemma norm_space_spaces: "c \<in> set (norm_space s) \<Longrightarrow> is_space c \<Longrightarrow> c = CHR '' ''"
  unfolding norm_space_def using set_strip sub_ws_spaces by blast

lemma norm_space_last: "norm_space s \<noteq> [] \<Longrightarrow> \<not> is_space (last (norm_space s))"
  unfolding norm_space_def by (rule strip_last)

lemma norm_space_hd: "norm_space s \<noteq> [] \<Longrightarrow> \<not> is_space (hd (norm_space s))"
  unfolding norm_space_def by (rule strip_hd)

lemma dropWhile_sub_ws: "dropWhile is_space (sub_ws True s) = dropWhile is_space (sub_ws False s)"
  by (cases s) (auto simp: is_space_def)

lemma sub_ws_spaces_prefix:
  "\<forall>c \<in> set ws. is_space c \<Longrightarrow> dropWhile is_space (sub_ws b (ws @ s)) = dropWhile is_space (sub_ws b s)"
proof (induction ws arbitrary: b)
  case Nil then show ?case by simp
next
  case (Cons a ws)
  have sp: "is_space CHR '' ''" by (simp add: is_space_def)
  from Cons show ?case using sp dropWhile_sub_ws by (cases b) auto
qed

lemma norm_space_drop_prefix:
  "\<forall>c \<in> set ws. is_space c \<Longrightarrow> norm_space (ws @ s) = norm_space s"
  by (simp add: norm_space_def strip_def sub_ws_spaces_prefix)

section \<open>Facts about the matcher\<close>

text \<open>The states in which a pattern can end, as a set: what a repetition, a group
  and a sequence of patterns can match.\<close>

lemma rep_Cons_iff:
  "st \<in> set (rep c lo hi gr p g (x # xs)) \<longleftrightarrow>
     (cmatch c x \<and> hi \<noteq> Some 0 \<and>
        st \<in> set (rep c (lo - 1) (map_option (\<lambda>h. h - 1) hi) gr (Suc p) g xs))
     \<or> (lo = 0 \<and> st = (p, x # xs, g))"
  by (cases gr) (auto simp: Let_def)


lemma at_most_opt_pred:
  "hi \<noteq> Some 0 \<Longrightarrow> at_most_opt (map_option (\<lambda>h. h - 1) hi) n = at_most_opt hi (Suc n)"
  by (cases hi) (auto simp: at_most_opt_def)

lemma at_most_opt_Suc: "at_most_opt hi (Suc n) \<Longrightarrow> hi \<noteq> Some 0"
  by (cases hi) (auto simp: at_most_opt_def)

lemma in_rep:
  "(p', s', g') \<in> set (rep c lo hi gr p g s) \<longleftrightarrow>
     (\<exists>pre. s = pre @ s' \<and> lo \<le> length pre \<and> at_most_opt hi (length pre)
        \<and> (\<forall>x \<in> set pre. cmatch c x) \<and> p' = p + length pre \<and> g' = g)"
proof (induction s arbitrary: lo hi p)
  case Nil
  show ?case by (cases hi) (auto simp: at_most_opt_def)
next
  case (Cons x xs)
  show ?case (is "?L = ?R")
  proof
    assume ?L
    then consider
        (more) "cmatch c x" "hi \<noteq> Some 0"
          "(p', s', g') \<in> set (rep c (lo - 1) (map_option (\<lambda>h. h - 1) hi) gr (Suc p) g xs)"
      | (stop) "lo = 0" "(p', s', g') = (p, x # xs, g)"
      unfolding rep_Cons_iff by blast
    then show ?R
    proof cases
      case more
      from more(3) obtain pre where
        pre: "xs = pre @ s'" "lo - 1 \<le> length pre"
          "at_most_opt (map_option (\<lambda>h. h - 1) hi) (length pre)"
          "\<forall>x \<in> set pre. cmatch c x" "p' = Suc p + length pre" "g' = g"
        unfolding Cons.IH by blast
      from pre(3) have "at_most_opt hi (length (x # pre))"
        unfolding at_most_opt_pred[OF more(2)] by simp
      moreover from pre(1) have "x # xs = (x # pre) @ s'" by simp
      moreover from pre(2) have "lo \<le> length (x # pre)" by simp
      moreover from pre(4) more(1) have "\<forall>y \<in> set (x # pre). cmatch c y" by simp
      moreover from pre(5) have "p' = p + length (x # pre)" by simp
      ultimately show ?thesis using pre(6) by blast
    next
      case stop
      then have "x # xs = [] @ s'" "lo \<le> length ([]::string)" "p' = p + length ([]::string)" "g' = g"
        by simp_all
      moreover have "at_most_opt hi (length ([]::string))" by (cases hi) (simp_all add: at_most_opt_def)
      moreover have "\<forall>y \<in> set ([]::string). cmatch c y" by simp
      ultimately show ?thesis by blast
    qed
  next
    assume ?R
    then obtain pre where pre: "x # xs = pre @ s'" "lo \<le> length pre" "at_most_opt hi (length pre)"
        "\<forall>x \<in> set pre. cmatch c x" "p' = p + length pre" "g' = g" by blast
    show ?L
    proof (cases pre)
      case Nil
      with pre have "lo = 0" "(p', s', g') = (p, x # xs, g)" by simp_all
      then show ?thesis unfolding rep_Cons_iff by blast
    next
      case (Cons y ys)
      with pre(1) have y: "y = x" "xs = ys @ s'" by simp_all
      from pre(4) Cons y have cx: "cmatch c x" by simp
      from pre(3) Cons have h0: "hi \<noteq> Some 0" by (simp add: at_most_opt_Suc)
      from pre(3) Cons have w: "at_most_opt (map_option (\<lambda>h. h - 1) hi) (length ys)"
        unfolding at_most_opt_pred[OF h0] by simp
      from pre(2) Cons have l: "lo - 1 \<le> length ys" by simp
      from pre(4) Cons have a: "\<forall>x \<in> set ys. cmatch c x" by simp
      from pre(5) Cons have q: "p' = Suc p + length ys" by simp
      have "(p', s', g') \<in> set (rep c (lo - 1) (map_option (\<lambda>h. h - 1) hi) gr (Suc p) g xs)"
        unfolding Cons.IH using y(2) l w a q pre(6) by blast
      with cx h0 show ?thesis unfolding rep_Cons_iff by blast
    qed
  qed
qed

lemma in_ms_Eps: "st' \<in> set (ms Eps st) \<longleftrightarrow> st' = st"
  by simp

lemma in_ms_Bol: "(p', s', g') \<in> set (ms Bol (p, s, g)) \<longleftrightarrow> p = 0 \<and> p' = p \<and> s' = s \<and> g' = g"
  by (cases "p = 0") simp_all

lemma in_ms_Eol:
  "(p', s', g') \<in> set (ms Eol (p, s, g)) \<longleftrightarrow> (s = [] \<or> s = [CHR 0x0A]) \<and> p' = p \<and> s' = s \<and> g' = g"
proof (cases "s = [] \<or> s = [CHR 0x0A]")
  case True
  then have "ms Eol (p, s, g) = [(p, s, g)]" by simp
  with True show ?thesis by simp
next
  case False
  then have "ms Eol (p, s, g) = []" by simp
  with False show ?thesis by simp
qed

lemma in_ms_Chr:
  "(p', s', g') \<in> set (ms (Chr c) (p, s, g)) \<longleftrightarrow> (\<exists>x. s = x # s' \<and> cmatch c x \<and> p' = Suc p \<and> g' = g)"
proof (cases s)
  case Nil
  then show ?thesis by simp
next
  case (Cons y ys)
  then show ?thesis by (cases "cmatch c y") auto
qed

lemma in_ms_Rep:
  "(p', s', g') \<in> set (ms (Rep c lo hi gr) (p, s, g)) \<longleftrightarrow>
     (\<exists>pre. s = pre @ s' \<and> lo \<le> length pre \<and> at_most_opt hi (length pre)
        \<and> (\<forall>x \<in> set pre. cmatch c x) \<and> p' = p + length pre \<and> g' = g)"
  by (simp only: ms.simps in_rep)

lemma in_ms_Seq:
  "st'' \<in> set (ms (Seq a b) st) \<longleftrightarrow> (\<exists>st'. st' \<in> set (ms a st) \<and> st'' \<in> set (ms b st'))"
  by (simp only: ms.simps set_concat set_map) blast

lemma in_ms_Alt:
  "st' \<in> set (ms (Alt a b) st) \<longleftrightarrow> st' \<in> set (ms a st) \<or> st' \<in> set (ms b st)"
  by simp


lemma in_ms_Grp:
  "(p', s', g') \<in> set (ms (Grp n r) (p, s, g)) \<longleftrightarrow>
     (\<exists>g0. (p', s', g0) \<in> set (ms r (p, s, g)) \<and> g' = g0(n \<mapsto> take (p' - p) s))"
proof -
  have "set (ms (Grp n r) (p, s, g)) =
      (\<lambda>(pos', s', g'). (pos', s', g'(n \<mapsto> take (pos' - p) s))) ` set (ms r (p, s, g))"
    by simp
  then have "(p', s', g') \<in> set (ms (Grp n r) (p, s, g)) \<longleftrightarrow>
      (\<exists>a b c. (a, b, c) \<in> set (ms r (p, s, g)) \<and> (p', s', g') = (a, b, c(n \<mapsto> take (a - p) s)))"
    by (simp only: image_iff Bex_def split_paired_Ex prod.case)
  also have "\<dots> \<longleftrightarrow> (\<exists>g0. (p', s', g0) \<in> set (ms r (p, s, g)) \<and> g' = g0(n \<mapsto> take (p' - p) s))"
    by (simp only: prod.inject) blast
  finally show ?thesis .
qed

lemma re_match_Some:
  "re_match r s = Some g \<Longrightarrow> \<exists>p' s'. (p', s', g) \<in> set (ms r (0, s, Map.empty))"
  unfolding re_match_def by (cases "ms r (0, s, Map.empty)") (simp, fastforce)

lemma re_match_None: "re_match r s = None \<longleftrightarrow> ms r (0, s, Map.empty) = []"
  unfolding re_match_def by (cases "ms r (0, s, Map.empty)") (simp, fastforce)

lemma in_seq_Nil: "st' \<in> set (ms (seq []) st) \<longleftrightarrow> st' = st"
  by (simp add: seq_def)

lemma in_seq_Cons:
  "st'' \<in> set (ms (seq (r # rs)) st) \<longleftrightarrow> (\<exists>st'. st' \<in> set (ms r st) \<and> st'' \<in> set (ms (seq rs) st'))"
  unfolding seq_def foldr.simps o_apply by (rule in_ms_Seq)

lemma at_Bol: "st' \<in> set (ms Bol (p, s, g)) \<longleftrightarrow> p = 0 \<and> st' = (p, s, g)"
proof -
  obtain p' s' g' where st': "st' = (p', s', g')" by (cases st')
  show ?thesis unfolding st' in_ms_Bol prod.inject by blast
qed

lemma at_Eol: "st' \<in> set (ms Eol (p, s, g)) \<longleftrightarrow> (s = [] \<or> s = [CHR 0x0A]) \<and> st' = (p, s, g)"
proof -
  obtain p' s' g' where st': "st' = (p', s', g')" by (cases st')
  show ?thesis unfolding st' in_ms_Eol prod.inject by blast
qed

lemma at_Chr:
  "st' \<in> set (ms (Chr c) (p, s, g)) \<longleftrightarrow> (\<exists>x s'. s = x # s' \<and> cmatch c x \<and> st' = (Suc p, s', g))"
proof -
  obtain p' s' g' where st': "st' = (p', s', g')" by (cases st')
  show ?thesis unfolding st' in_ms_Chr prod.inject by blast
qed

lemma at_Rep:
  "st' \<in> set (ms (Rep c lo hi gr) (p, s, g)) \<longleftrightarrow>
     (\<exists>pre s'. s = pre @ s' \<and> lo \<le> length pre \<and> at_most_opt hi (length pre)
        \<and> (\<forall>x \<in> set pre. cmatch c x) \<and> st' = (p + length pre, s', g))"
proof -
  obtain p' s' g' where st': "st' = (p', s', g')" by (cases st')
  show ?thesis unfolding st' in_ms_Rep prod.inject by blast
qed

lemma at_Grp:
  "st' \<in> set (ms (Grp n r) (p, s, g)) \<longleftrightarrow>
     (\<exists>p' s' g0. (p', s', g0) \<in> set (ms r (p, s, g)) \<and> st' = (p', s', g0(n \<mapsto> take (p' - p) s)))"
proof -
  obtain p' s' g' where st': "st' = (p', s', g')" by (cases st')
  show ?thesis unfolding st' in_ms_Grp prod.inject by blast
qed

lemma at_Grp_Rep:
  "st' \<in> set (ms (Grp n (Rep c lo hi gr)) (p, s, g)) \<longleftrightarrow>
     (\<exists>pre s'. s = pre @ s' \<and> lo \<le> length pre \<and> at_most_opt hi (length pre)
        \<and> (\<forall>x \<in> set pre. cmatch c x) \<and> st' = (p + length pre, s', g(n \<mapsto> pre)))"
  (is "?L = ?R")
proof
  assume ?L
  then obtain p' s' g0 where a: "(p', s', g0) \<in> set (ms (Rep c lo hi gr) (p, s, g))"
    and b: "st' = (p', s', g0(n \<mapsto> take (p' - p) s))" unfolding at_Grp by blast
  from a obtain pre s'' where pre: "s = pre @ s''" "lo \<le> length pre" "at_most_opt hi (length pre)"
      "\<forall>x \<in> set pre. cmatch c x" and c: "(p', s', g0) = (p + length pre, s'', g)"
    unfolding at_Rep by blast
  from c have d: "p' = p + length pre" "s' = s''" "g0 = g" by simp_all
  from pre(1) d(1) have "take (p' - p) s = pre" by simp
  with b d have "st' = (p + length pre, s'', g(n \<mapsto> pre))" by simp
  with pre show ?R by blast
next
  assume ?R
  then obtain pre s' where pre: "s = pre @ s'" "lo \<le> length pre" "at_most_opt hi (length pre)"
      "\<forall>x \<in> set pre. cmatch c x" and c: "st' = (p + length pre, s', g(n \<mapsto> pre))" by blast
  from pre have a: "(p + length pre, s', g) \<in> set (ms (Rep c lo hi gr) (p, s, g))"
    unfolding at_Rep by blast
  from pre(1) have "take (p + length pre - p) s = pre" by simp
  with c have "st' = (p + length pre, s', g(n \<mapsto> take (p + length pre - p) s))" by simp
  with a show ?L unfolding at_Grp by blast
qed

lemma at_Grp_Seq_Rep:
  "st' \<in> set (ms (Grp n (Seq (Rep c1 lo1 hi1 gr1) (Rep c2 lo2 hi2 gr2))) (p, s, g)) \<longleftrightarrow>
     (\<exists>pre1 pre2 s'. s = pre1 @ pre2 @ s'
        \<and> lo1 \<le> length pre1 \<and> at_most_opt hi1 (length pre1) \<and> (\<forall>x \<in> set pre1. cmatch c1 x)
        \<and> lo2 \<le> length pre2 \<and> at_most_opt hi2 (length pre2) \<and> (\<forall>x \<in> set pre2. cmatch c2 x)
        \<and> st' = (p + length pre1 + length pre2, s', g(n \<mapsto> pre1 @ pre2)))"
  (is "?L = ?R")
proof
  assume ?L
  then obtain p' s' g0 where a: "(p', s', g0) \<in> set (ms (Seq (Rep c1 lo1 hi1 gr1) (Rep c2 lo2 hi2 gr2)) (p, s, g))"
    and b: "st' = (p', s', g0(n \<mapsto> take (p' - p) s))" unfolding at_Grp by blast
  from a obtain st1 where a1: "st1 \<in> set (ms (Rep c1 lo1 hi1 gr1) (p, s, g))"
    and a2: "(p', s', g0) \<in> set (ms (Rep c2 lo2 hi2 gr2) st1)" unfolding in_ms_Seq by blast
  from a1 obtain pre1 s1 where p1: "s = pre1 @ s1" "lo1 \<le> length pre1" "at_most_opt hi1 (length pre1)"
      "\<forall>x \<in> set pre1. cmatch c1 x" and s1: "st1 = (p + length pre1, s1, g)"
    unfolding at_Rep by blast
  from a2 obtain pre2 s2 where p2: "s1 = pre2 @ s2" "lo2 \<le> length pre2" "at_most_opt hi2 (length pre2)"
      "\<forall>x \<in> set pre2. cmatch c2 x" and c: "(p', s', g0) = (p + length pre1 + length pre2, s2, g)"
    unfolding s1 at_Rep by blast
  from c have d: "p' = p + length pre1 + length pre2" "s' = s2" "g0 = g" by simp_all
  from p1(1) p2(1) have e: "s = pre1 @ pre2 @ s2" by simp
  with d(1) have "take (p' - p) s = pre1 @ pre2" by simp
  with b d have "st' = (p + length pre1 + length pre2, s2, g(n \<mapsto> pre1 @ pre2))" by simp
  with e p1(2,3,4) p2(2,3,4) show ?R by blast
next
  assume ?R
  then obtain pre1 pre2 s' where e: "s = pre1 @ pre2 @ s'"
      and p1: "lo1 \<le> length pre1" "at_most_opt hi1 (length pre1)" "\<forall>x \<in> set pre1. cmatch c1 x"
      and p2: "lo2 \<le> length pre2" "at_most_opt hi2 (length pre2)" "\<forall>x \<in> set pre2. cmatch c2 x"
      and c: "st' = (p + length pre1 + length pre2, s', g(n \<mapsto> pre1 @ pre2))" by blast
  from e p1 have a1: "(p + length pre1, pre2 @ s', g) \<in> set (ms (Rep c1 lo1 hi1 gr1) (p, s, g))"
    unfolding at_Rep by blast
  from p2 have a2: "(p + length pre1 + length pre2, s', g)
      \<in> set (ms (Rep c2 lo2 hi2 gr2) (p + length pre1, pre2 @ s', g))"
    unfolding at_Rep by blast
  from a1 a2 have a: "(p + length pre1 + length pre2, s', g)
      \<in> set (ms (Seq (Rep c1 lo1 hi1 gr1) (Rep c2 lo2 hi2 gr2)) (p, s, g))"
    unfolding in_ms_Seq by blast
  from e have "take (p + length pre1 + length pre2 - p) s = pre1 @ pre2" by simp
  with c have "st' = (p + length pre1 + length pre2, s',
      g(n \<mapsto> take (p + length pre1 + length pre2 - p) s))" by simp
  with a show ?L unfolding at_Grp by blast
qed

lemma search_from_Some:
  "search_from r p s = Some g \<Longrightarrow> \<exists>q t p' s'. (p', s', g) \<in> set (ms r (q, t, Map.empty))"
proof (induction s arbitrary: p)
  case Nil
  show ?case
  proof (cases "ms r (p, [], Map.empty)")
    case Nil
    with Nil.prems show ?thesis by simp
  next
    case (Cons st sts)
    obtain p' s' g' where st: "st = (p', s', g')" by (cases st)
    with Cons Nil.prems have "g' = g" by simp
    with Cons st have "(p', s', g) \<in> set (ms r (p, [], Map.empty))" by simp
    then show ?thesis by blast
  qed
next
  case (Cons c cs)
  show ?case
  proof (cases "ms r (p, c # cs, Map.empty)")
    case Nil
    with Cons.prems have "search_from r (Suc p) cs = Some g" by simp
    then show ?thesis by (rule Cons.IH)
  next
    case (Cons st sts)
    obtain p' s' g' where st: "st = (p', s', g')" by (cases st)
    with Cons Cons.prems have "g' = g" by simp
    with Cons st have "(p', s', g) \<in> set (ms r (p, c # cs, Map.empty))" by simp
    then show ?thesis by blast
  qed
qed

section \<open>The driver and the progress bar\<close>

lemma update_ok:
  assumes "1 \<le> total b"
  shows "\<exists>b' ln. update b inc w = (Inr b', w\<lparr>console := console w @ [Progress ln]\<rparr>)
           \<and> total b' = total b \<and> percent ln \<le> 100"
proof -
  let ?b1 = "b\<lparr>current := current b + inc\<rparr>"
  let ?q = "min (of_int (current ?b1) / of_int (total ?b1)) (1::rat)"
  let ?ln = "\<lparr>shown_current = current ?b1, shown_total = total ?b1,
              filled = py_int (?q * of_int (width ?b1)), percent = ?q * 100\<rparr>"
  have "update b inc w = (Inr ?b1, w\<lparr>console := console w @ [Progress ?ln]\<rparr>)"
    using assms by (simp add: update_def true_div_def Let_def)
  moreover have "percent ?ln \<le> 100" by simp
  moreover have "total ?b1 = total b" by simp
  ultimately show ?thesis by blast
qed

lemma finish_ok:
  assumes "1 \<le> total b"
  shows "\<exists>b' w'. finish b w = (Inr b', w') \<and> total b' = total b \<and> files w' = files w
           \<and> requests w' = requests w"
proof -
  from update_ok[OF assms, of 0 w] obtain b' ln where
    "update b 0 w = (Inr b', w\<lparr>console := console w @ [Progress ln]\<rparr>)" "total b' = total b"
    by blast
  then show ?thesis by (simp add: finish_def)
qed

text \<open>
  Claim C10.  The progress bar never divides by zero: \<open>ProgressBar\<close> makes the total at
  least 1, whatever count it is given (zero parseable blocks too); on a bar whose total
  is at least 1 \<open>update\<close> raises nothing, prints one line, keeps the total, and the
  ratio it displays is at most 100 percent.  So every bar reached from \<open>ProgressBar\<close>
  by updates is safe.
\<close>

theorem C10_progress_bar_safe:
  "1 \<le> total (ProgressBar t wd) \<and>
   (\<forall>b inc w. 1 \<le> total b \<longrightarrow>
      (\<exists>b' ln. update b inc w = (Inr b', w\<lparr>console := console w @ [Progress ln]\<rparr>)
         \<and> total b' = total b \<and> percent ln \<le> 100))"
proof -
  have "1 \<le> total (ProgressBar t wd)" by (simp add: ProgressBar_def)
  moreover have "\<forall>b inc w. 1 \<le> total b \<longrightarrow>
      (\<exists>b' ln. update b inc w = (Inr b', w\<lparr>console := console w @ [Progress ln]\<rparr>)
         \<and> total b' = total b \<and> percent ln \<le> 100)"
    using update_ok by blast
  ultimately show ?thesis by blast
qed

theorem C10_progress_bar_safe_witness:
  "1 \<le> total (ProgressBar 0 30) \<and>
   (\<exists>b' ln. update (ProgressBar 0 30) 1 sample_world =
        (Inr b', sample_world\<lparr>console := console sample_world @ [Progress ln]\<rparr>)
      \<and> total b' = total (ProgressBar 0 30) \<and> percent ln \<le> 100)"
  using C10_progress_bar_safe[of 0 30] by blast

lemma parse_course_None_iff: "parse_course cd url = None \<longleftrightarrow> extract_course_header cd = None"
  by (auto simp: parse_course_def Let_def split: option.splits prod.splits)

text \<open>
  Claim C5.  A course block on which none of the three attempts at a header succeeds is
  skipped by the driver: \<open>parse_course\<close> gives no record, the loop goes on with the next
  blocks with the skip counter one higher and everything else, the list of records and
  the world included, as it was; a run over that block alone ends without an exception.
\<close>

theorem C5_block_without_header_skipped:
  assumes "header_from_id_title cd = None"
    and "header_from_first_b cd = None"
    and "header_from_full_text cd = None"
  shows "parse_course cd url = None
     \<and> blocks_loop url (cd # cds) t w = blocks_loop url cds (t\<lparr>skipped := skipped t + 1\<rparr>) w
     \<and> blocks_loop url [cd] t w = (Inr (t\<lparr>skipped := skipped t + 1\<rparr>), w)"
proof -
  have "extract_course_header cd = None"
    using assms by (simp add: extract_course_header_def)
  then have "parse_course cd url = None" by (simp add: parse_course_None_iff)
  then show ?thesis by simp
qed

theorem C5_block_without_header_skipped_witness:
  "header_from_id_title sample_block_no_header = None \<and>
   header_from_first_b sample_block_no_header = None \<and>
   header_from_full_text sample_block_no_header = None \<and>
   parse_course sample_block_no_header ''u'' = None \<and>
   blocks_loop ''u'' [sample_block_no_header] sample_tally sample_world =
     (Inr (sample_tally\<lparr>skipped := skipped sample_tally + 1\<rparr>), sample_world)"
proof -
  have h1: "header_from_id_title sample_block_no_header = None" by code_simp
  have h2: "header_from_first_b sample_block_no_header = None" by code_simp
  have h3: "header_from_full_text sample_block_no_header = None" by code_simp
  from C5_block_without_header_skipped[OF h1 h2 h3, of "''u''" "[]" sample_tally sample_world] h1 h2 h3
  show ?thesis by blast
qed

lemma count_headers_eq:
  "count_headers cds n = n + int (length (filter (\<lambda>cd. extract_course_header cd \<noteq> None) cds))"
  by (induction cds arbitrary: n) auto

lemma blocks_loop_ok:
  assumes "1 \<le> total (bar t)"
  shows "\<exists>t' w'. blocks_loop url cds t w = (Inr t', w') \<and> total (bar t') = total (bar t)
     \<and> int (length (all_courses t')) =
         int (length (all_courses t)) + int (length (filter (\<lambda>cd. extract_course_header cd \<noteq> None) cds))
     \<and> files w' = files w \<and> requests w' = requests w"
  using assms
proof (induction cds arbitrary: t w)
  case Nil
  then show ?case by simp
next
  case (Cons cd cds)
  show ?case
  proof (cases "parse_course cd url")
    case None
    then have h: "extract_course_header cd = None" by (simp add: parse_course_None_iff)
    have "1 \<le> total (bar (t\<lparr>skipped := skipped t + 1\<rparr>))" using Cons.prems by simp
    from Cons.IH[OF this, of w] show ?thesis using None h by simp
  next
    case (Some c)
    then have h: "extract_course_header cd \<noteq> None" using parse_course_None_iff[of cd url] by auto
    from update_ok[OF Cons.prems, of 1 w] obtain b' ln where
      u: "update (bar t) 1 w = (Inr b', w\<lparr>console := console w @ [Progress ln]\<rparr>)"
      and tb: "total b' = total (bar t)" by blast
    have "1 \<le> total (bar (t\<lparr>all_courses := all_courses t @ [c], bar := b'\<rparr>))"
      using Cons.prems tb by simp
    from Cons.IH[OF this, of "w\<lparr>console := console w @ [Progress ln]\<rparr>"]
    show ?thesis using Some h u tb by auto
  qed
qed

lemma pages_loop_ok:
  assumes "1 \<le> total (bar t)"
  shows "\<exists>t' w'. pages_loop soup pages t w = (Inr t', w') \<and> total (bar t') = total (bar t)
     \<and> int (length (all_courses t')) =
         count_pages soup pages (int (length (all_courses t)))
     \<and> files w' = files w \<and> requests w' = requests w"
  using assms
proof (induction pages arbitrary: t w)
  case Nil
  then show ?case by simp
next
  case (Cons p pages)
  obtain url html where p: "p = (url, html)" by (cases p)
  from blocks_loop_ok[OF Cons.prems, of url "select_course_displays (soup html)" w]
  obtain t1 w1 where b: "blocks_loop url (select_course_displays (soup html)) t w = (Inr t1, w1)"
    and tb: "total (bar t1) = total (bar t)"
    and len: "int (length (all_courses t1)) = int (length (all_courses t)) +
         int (length (filter (\<lambda>cd. extract_course_header cd \<noteq> None) (select_course_displays (soup html))))"
    and fw: "files w1 = files w" "requests w1 = requests w" by blast
  have "1 \<le> total (bar t1)" using Cons.prems tb by simp
  from Cons.IH[OF this, of w1] show ?case using p b tb len fw by (auto simp: count_headers_eq)
qed

lemma first_pass_count:
  "first_pass get soup urls (pages, n) w = (Inr (pages', n'), w') \<Longrightarrow>
     \<exists>new. pages' = pages @ new \<and> n' = count_pages soup new n"
proof (induction urls arbitrary: pages n w)
  case Nil
  then show ?case by auto
next
  case (Cons u urls)
  show ?case
  proof (cases "fetch get u")
    case (Inl e)
    with Cons.prems show ?thesis by simp
  next
    case (Inr html)
    with Cons.prems have "first_pass get soup urls
               (pages @ [(u, html)], count_headers (select_course_displays (soup html)) n)
               (w\<lparr>requests := requests w @ [u]\<rparr>) = (Inr (pages', n'), w')" by (simp add: Let_def)
    from Cons.IH[OF this] obtain new where
      "pages' = (pages @ [(u, html)]) @ new"
      "n' = count_pages soup new (count_headers (select_course_displays (soup html)) n)" by blast
    then show ?thesis by (intro exI[of _ "(u, html) # new"]) simp
  qed
qed

text \<open>
  Claim C9.  When the first pass has fetched all pages and counted \<open>total_est\<close> blocks
  with a header, the second pass over the same pages ends without an exception and the
  number of records it has collected is \<open>total_est\<close>.
\<close>

theorem C9_first_pass_count_is_output_length:
  assumes "first_pass get soup URLS ([], 0) w = (Inr (pages, total_est), w1)"
  shows "\<exists>t w2. pages_loop soup pages
            \<lparr>all_courses = [], skipped = 0, bar = ProgressBar total_est 30\<rparr> w1 = (Inr t, w2)
          \<and> int (length (all_courses t)) = total_est"
proof -
  from first_pass_count[OF assms] have n: "total_est = count_pages soup pages 0" by simp
  let ?t0 = "\<lparr>all_courses = [], skipped = 0, bar = ProgressBar total_est 30\<rparr>"
  have "1 \<le> total (bar ?t0)" by (simp add: ProgressBar_def)
  from pages_loop_ok[OF this, of soup pages w1] show ?thesis using n by auto
qed

theorem C9_first_pass_count_is_output_length_witness:
  "first_pass sample_get_ok sample_soup URLS ([], 0) sample_world =
     (Inr (map (\<lambda>u. (u, u)) URLS, 5), sample_world\<lparr>requests := URLS\<rparr>) \<and>
   (\<exists>t w2. pages_loop sample_soup (map (\<lambda>u. (u, u)) URLS)
            \<lparr>all_courses = [], skipped = 0, bar = ProgressBar 5 30\<rparr>
            (sample_world\<lparr>requests := URLS\<rparr>) = (Inr t, w2)
          \<and> int (length (all_courses t)) = 5)"
proof -
  have h: "first_pass sample_get_ok sample_soup URLS ([], 0) sample_world =
     (Inr (map (\<lambda>u. (u, u)) URLS, 5), sample_world\<lparr>requests := URLS\<rparr>)" by code_simp
  from C9_first_pass_count_is_output_length[OF h] h show ?thesis by blast
qed






section \<open>Units and instructors\<close>

lemma units_match_D:
  assumes "st \<in> set (ms UNITS_RE (0, txt, Map.empty))"
  shows "\<exists>c ws r s'. txt = CHR ''('' # c @ CHR '')'' # ws @ r @ s' \<and> c \<noteq> [] \<and> CHR '')'' \<notin> set c
       \<and> (\<forall>x\<in>set ws. is_space x) \<and> (s' = [] \<or> s' = [CHR 0x0A])
       \<and> (snd (snd st)) 1 = Some c \<and> (snd (snd st)) 2 = Some r"
proof -
  from assms obtain st1 st2 st3 st4 st5 st6 where
      1: "st1 \<in> set (ms Bol (0, txt, Map.empty))"
  and 2: "st2 \<in> set (ms (Chr (Lit CHR ''('')) st1)"
  and 3: "st3 \<in> set (ms (Grp 1 (Rep (NoneOf '')'') 1 None True)) st2)"
  and 4: "st4 \<in> set (ms (Chr (Lit CHR '')'')) st3)"
  and 5: "st5 \<in> set (ms (Rep Space 0 None True) st4)"
  and 6: "st6 \<in> set (ms (Grp 2 (Rep Dot 0 None True)) st5)"
  and 7: "st \<in> set (ms Eol st6)"
    unfolding UNITS_RE_def in_seq_Cons in_seq_Nil by blast
  from 1 have s1: "st1 = (0, txt, Map.empty)" unfolding at_Bol by simp
  from 2 obtain t2 where t2: "txt = CHR ''('' # t2" and s2: "st2 = (Suc 0, t2, Map.empty)"
    unfolding s1 at_Chr by auto
  from 3 obtain c t3 where t3: "t2 = c @ t3" "1 \<le> length c" "\<forall>x \<in> set c. cmatch (NoneOf '')'') x"
    and s3: "st3 = (Suc 0 + length c, t3, Map.empty(1 \<mapsto> c))"
    unfolding s2 at_Grp_Rep by blast
  from 4 obtain t4 where t4: "t3 = CHR '')'' # t4"
    and s4: "st4 = (Suc (Suc 0 + length c), t4, Map.empty(1 \<mapsto> c))"
    unfolding s3 at_Chr by auto
  from 5 obtain ws t5 where t5: "t4 = ws @ t5" "\<forall>x \<in> set ws. cmatch Space x"
    and s5: "st5 = (Suc (Suc 0 + length c) + length ws, t5, Map.empty(1 \<mapsto> c))"
    unfolding s4 at_Rep by blast
  from 6 obtain r t6 where t6: "t5 = r @ t6"
    and s6: "st6 = (Suc (Suc 0 + length c) + length ws + length r, t6, Map.empty(1 \<mapsto> c, 2 \<mapsto> r))"
    unfolding s5 at_Grp_Rep by blast
  from 7 have t7: "t6 = [] \<or> t6 = [CHR 0x0A]" and s7: "st = st6"
    unfolding s6 at_Eol by simp_all
  have "txt = CHR ''('' # c @ CHR '')'' # ws @ r @ t6" using t2 t3 t4 t5 t6 by simp
  moreover have "c \<noteq> []" using t3(2) by auto
  moreover have "CHR '')'' \<notin> set c" using t3(3) by auto
  moreover have "\<forall>x\<in>set ws. is_space x" using t5(2) by simp
  moreover have "(snd (snd st)) 1 = Some c" "(snd (snd st)) 2 = Some r" unfolding s7 s6 by simp_all
  ultimately show ?thesis using t7 by blast
qed

lemma units_match_I:
  assumes "txt = CHR ''('' # c @ CHR '')'' # r" "c \<noteq> []" "CHR '')'' \<notin> set c" "CHR 0x0A \<notin> set r"
  shows "ms UNITS_RE (0, txt, Map.empty) \<noteq> []"
proof -
  let ?e = "Map.empty :: groups"
  have 1: "(0, txt, ?e) \<in> set (ms Bol (0, txt, ?e))" unfolding at_Bol by simp
  have 2: "(Suc 0, c @ CHR '')'' # r, ?e) \<in> set (ms (Chr (Lit CHR ''('')) (0, txt, ?e))"
    unfolding at_Chr using assms(1) by simp
  have 3: "(Suc 0 + length c, CHR '')'' # r, ?e(1 \<mapsto> c))
      \<in> set (ms (Grp 1 (Rep (NoneOf '')'') 1 None True)) (Suc 0, c @ CHR '')'' # r, ?e))"
    unfolding at_Grp_Rep using assms(2,3)
    by (intro exI[of _ c] exI[of _ "CHR '')'' # r"]) (auto simp: at_most_opt_def Suc_le_eq)
  have 4: "(Suc (Suc 0 + length c), r, ?e(1 \<mapsto> c))
      \<in> set (ms (Chr (Lit CHR '')'')) (Suc 0 + length c, CHR '')'' # r, ?e(1 \<mapsto> c)))"
    unfolding at_Chr by simp
  have 5: "(Suc (Suc 0 + length c) + length ([]::string), r, ?e(1 \<mapsto> c))
      \<in> set (ms (Rep Space 0 None True) (Suc (Suc 0 + length c), r, ?e(1 \<mapsto> c)))"
    unfolding at_Rep by (intro exI[of _ "[]"] exI[of _ r]) (simp add: at_most_opt_def)
  have 6: "(Suc (Suc 0 + length c) + length ([]::string) + length r, [], ?e(1 \<mapsto> c, 2 \<mapsto> r))
      \<in> set (ms (Grp 2 (Rep Dot 0 None True))
               (Suc (Suc 0 + length c) + length ([]::string), r, ?e(1 \<mapsto> c)))"
    unfolding at_Grp_Rep using assms(4)
    by (intro exI[of _ r] exI[of _ "[]"]) (auto simp: at_most_opt_def)
  have 7: "(Suc (Suc 0 + length c) + length ([]::string) + length r, [], ?e(1 \<mapsto> c, 2 \<mapsto> r))
      \<in> set (ms Eol (Suc (Suc 0 + length c) + length ([]::string) + length r, [], ?e(1 \<mapsto> c, 2 \<mapsto> r)))"
    unfolding at_Eol by simp
  from 1 2 3 4 5 6 7
  have "(Suc (Suc 0 + length c) + length ([]::string) + length r, [], ?e(1 \<mapsto> c, 2 \<mapsto> r))
      \<in> set (ms UNITS_RE (0, txt, ?e))"
    unfolding UNITS_RE_def in_seq_Cons in_seq_Nil by blast
  then show ?thesis by auto
qed

lemma split_at_first:
  "x \<notin> set a \<Longrightarrow> x \<notin> set b \<Longrightarrow> a @ x # u = b @ x # v \<Longrightarrow> a = b \<and> u = v"
proof (induction a arbitrary: b)
  case Nil
  then show ?case by (cases b) auto
next
  case (Cons y a)
  then show ?case by (cases b) auto
qed

lemma norm_space_no_newline: "CHR 0x0A \<notin> set (norm_space s)"
proof
  assume "CHR 0x0A \<in> set (norm_space s)"
  moreover have "is_space (CHR 0x0A)" by (simp add: is_space_def)
  ultimately have "CHR 0x0A = CHR '' ''" by (rule norm_space_spaces)
  then show False by simp
qed

lemma units_re_match:
  assumes "norm_space s = CHR ''('' # c @ CHR '')'' # R" "c \<noteq> []" "CHR '')'' \<notin> set c"
  shows "\<exists>m. re_match UNITS_RE (norm_space s) = Some m \<and> group m 1 = c
           \<and> norm_space (group m 2) = norm_space R"
proof -
  have nl: "CHR 0x0A \<notin> set (norm_space s)" by (rule norm_space_no_newline)
  with assms(1) have "CHR 0x0A \<notin> set R" by simp
  from units_match_I[OF assms(1,2,3) this] have "re_match UNITS_RE (norm_space s) \<noteq> None"
    by (simp add: re_match_None)
  then obtain m where m: "re_match UNITS_RE (norm_space s) = Some m" by auto
  from re_match_Some[OF m] obtain p' s' where
    "(p', s', m) \<in> set (ms UNITS_RE (0, norm_space s, Map.empty))" by blast
  from units_match_D[OF this] obtain c' ws r t where
    d: "norm_space s = CHR ''('' # c' @ CHR '')'' # ws @ r @ t" "CHR '')'' \<notin> set c'"
       "\<forall>x\<in>set ws. is_space x" "t = [] \<or> t = [CHR 0x0A]" "m 1 = Some c'" "m 2 = Some r"
    by auto
  from d(1) assms(1) have "c @ CHR '')'' # R = c' @ CHR '')'' # ws @ r @ t" by simp
  with assms(3) d(2) have "c = c' \<and> R = ws @ r @ t" by (rule split_at_first)
  then have e: "c = c'" "R = ws @ r @ t" by simp_all
  from d(4) nl d(1) have "t = []" by auto
  with e(2) d(3) have "norm_space R = norm_space r" by (simp add: norm_space_drop_prefix)
  with m e(1) d(5,6) show ?thesis by (simp add: group_def)
qed

lemma units_re_no_match:
  assumes "\<not> (\<exists>c R. txt = CHR ''('' # c @ CHR '')'' # R \<and> c \<noteq> [] \<and> CHR '')'' \<notin> set c)"
  shows "re_match UNITS_RE txt = None"
proof (rule ccontr)
  assume "re_match UNITS_RE txt \<noteq> None"
  then obtain m where m: "re_match UNITS_RE txt = Some m" by auto
  from re_match_Some[OF m] obtain p' s' where
    "(p', s', m) \<in> set (ms UNITS_RE (0, txt, Map.empty))" by blast
  from units_match_D[OF this] obtain c' ws r t where
    "txt = CHR ''('' # c' @ CHR '')'' # ws @ r @ t" "c' \<noteq> []" "CHR '')'' \<notin> set c'"
    by auto
  with assms show False by blast
qed

text \<open>
  Claim C3.  Without an instructor/units span the result is no units and no
  instructors.  When the normalized text of the span is an opening parenthesis, one or
  more characters other than a closing parenthesis, a closing parenthesis and a rest,
  the units are the normalized content of the parentheses and the instructor text is
  the normalized rest; for every other text, also one that begins with \<open>()\<close>, there are
  no units and the whole text is the instructor text.  An empty instructor text gives
  no instructors, one whose upper case is \<open>STAFF\<close> gives \<open>["STAFF"]\<close>, and any other
  is split at the semicolons, each piece normalized, the empty ones dropped.
\<close>

theorem C3_units_and_instructors:
  "(select_one_class ''span'' ''InstructorUnits'' (elem course_div) = None \<longrightarrow>
      parse_units_and_instructors course_div = (None, [])) \<and>
   (select_one_class ''span'' ''InstructorUnits'' (elem course_div) = Some span_tag \<and>
    norm_space (get_text span_tag) = ''('' @ c @ '')'' @ rest \<and> c \<noteq> [] \<and> CHR '')'' \<notin> set c \<longrightarrow>
      parse_units_and_instructors course_div =
        (Some (norm_space c), instructors_of (norm_space rest))) \<and>
   (select_one_class ''span'' ''InstructorUnits'' (elem course_div) = Some span_tag \<and>
    \<not> (\<exists>c rest. norm_space (get_text span_tag) = ''('' @ c @ '')'' @ rest \<and> c \<noteq> []
                 \<and> CHR '')'' \<notin> set c) \<longrightarrow>
      parse_units_and_instructors course_div =
        (None, instructors_of (norm_space (get_text span_tag)))) \<and>
   instructors_of [] = [] \<and>
   (t \<noteq> [] \<and> str_upper t = ''STAFF'' \<longrightarrow> instructors_of t = [''STAFF'']) \<and>
   (t \<noteq> [] \<and> str_upper t \<noteq> ''STAFF'' \<longrightarrow>
      instructors_of t =
        map norm_space (filter (\<lambda>x. norm_space x \<noteq> []) (split CHR '';'' t)))"
proof (intro conjI impI)
  assume "select_one_class ''span'' ''InstructorUnits'' (elem course_div) = None"
  then show "parse_units_and_instructors course_div = (None, [])"
    by (simp add: parse_units_and_instructors_def)
next
  assume a: "select_one_class ''span'' ''InstructorUnits'' (elem course_div) = Some span_tag \<and>
    norm_space (get_text span_tag) = ''('' @ c @ '')'' @ rest \<and> c \<noteq> [] \<and> CHR '')'' \<notin> set c"
  then have "norm_space (get_text span_tag) = CHR ''('' # c @ CHR '')'' # rest" by simp
  from units_re_match[OF this] a obtain m where
    m: "re_match UNITS_RE (norm_space (get_text span_tag)) = Some m" "group m 1 = c"
       "norm_space (group m 2) = norm_space rest" by blast
  with a show "parse_units_and_instructors course_div =
        (Some (norm_space c), instructors_of (norm_space rest))"
    by (simp add: parse_units_and_instructors_def Let_def)
next
  assume a: "select_one_class ''span'' ''InstructorUnits'' (elem course_div) = Some span_tag \<and>
    \<not> (\<exists>c rest. norm_space (get_text span_tag) = ''('' @ c @ '')'' @ rest \<and> c \<noteq> []
                 \<and> CHR '')'' \<notin> set c)"
  then have "\<not> (\<exists>c R. norm_space (get_text span_tag) = CHR ''('' # c @ CHR '')'' # R \<and> c \<noteq> []
      \<and> CHR '')'' \<notin> set c)" by simp
  then have "re_match UNITS_RE (norm_space (get_text span_tag)) = None" by (rule units_re_no_match)
  with a show "parse_units_and_instructors course_div =
        (None, instructors_of (norm_space (get_text span_tag)))"
    by (simp add: parse_units_and_instructors_def Let_def)
next
  show "instructors_of [] = []" by (simp add: instructors_of_def)
next
  assume "t \<noteq> [] \<and> str_upper t = ''STAFF''"
  then show "instructors_of t = [''STAFF'']" by (simp add: instructors_of_def)
next
  assume "t \<noteq> [] \<and> str_upper t \<noteq> ''STAFF''"
  then show "instructors_of t =
        map norm_space (filter (\<lambda>x. norm_space x \<noteq> []) (split CHR '';'' t))"
    by (simp add: instructors_of_def)
qed

theorem C3_units_and_instructors_witness:
  "select_one_class ''span'' ''InstructorUnits'' (elem sample_block_no_header) = None \<and>
   parse_units_and_instructors sample_block_no_header = (None, []) \<and>
   norm_space (get_text (Tag ''span'' None [''InstructorUnits''] [NavStr ''(4-8)  Smith, J.; Lee, K.'']))
     = ''('' @ ''4-8'' @ '')'' @ '' Smith, J.; Lee, K.'' \<and>
   parse_units_and_instructors sample_block_units_names = (Some ''4-8'', [''Smith, J.'', ''Lee, K.'']) \<and>
   parse_units_and_instructors sample_block_units_staff = (Some ''4'', [''STAFF'']) \<and>
   parse_units_and_instructors sample_block_instructors_only = (None, [''Smith, J.'', ''Lee, K.'']) \<and>
   instructors_of ''Staff'' = [''STAFF'']"
proof -
  let ?names = "Tag ''span'' None [''InstructorUnits''] [NavStr ''(4-8)  Smith, J.; Lee, K.'']"
  let ?staff = "Tag ''span'' None [''InstructorUnits''] [NavStr ''(4) STAFF'']"
  let ?only = "Tag ''span'' None [''InstructorUnits''] [NavStr ''Smith, J.; ; Lee, K.'']"
  have n0: "select_one_class ''span'' ''InstructorUnits'' (elem sample_block_no_header) = None"
    by code_simp
  have n1: "select_one_class ''span'' ''InstructorUnits'' (elem sample_block_units_names) = Some ?names"
    by code_simp
  have n2: "norm_space (get_text ?names) = ''('' @ ''4-8'' @ '')'' @ '' Smith, J.; Lee, K.''"
    by code_simp
  have n3: "norm_space ''4-8'' = ''4-8''" by code_simp
  have n4: "instructors_of (norm_space '' Smith, J.; Lee, K.'') = [''Smith, J.'', ''Lee, K.'']"
    by code_simp
  have s1: "select_one_class ''span'' ''InstructorUnits'' (elem sample_block_units_staff) = Some ?staff"
    by code_simp
  have s2: "norm_space (get_text ?staff) = ''('' @ ''4'' @ '')'' @ '' STAFF''"
    by code_simp
  have s3: "norm_space ''4'' = ''4''" by code_simp
  have s4: "instructors_of (norm_space '' STAFF'') = [''STAFF'']" by code_simp
  have o1: "select_one_class ''span'' ''InstructorUnits'' (elem sample_block_instructors_only) = Some ?only"
    by code_simp
  have o2: "norm_space (get_text ?only) = ''Smith, J.; ; Lee, K.''" by code_simp
  have o3: "\<not> (\<exists>c rest. norm_space (get_text ?only) = ''('' @ c @ '')'' @ rest \<and> c \<noteq> []
                 \<and> CHR '')'' \<notin> set c)" unfolding o2 by simp
  have o4: "instructors_of ''Smith, J.; ; Lee, K.'' = [''Smith, J.'', ''Lee, K.'']" by code_simp
  have u1: "''Staff'' \<noteq> [] \<and> str_upper ''Staff'' = ''STAFF''" by code_simp
  have c1: "''4-8'' \<noteq> [] \<and> CHR '')'' \<notin> set ''4-8''" by simp
  have c2: "''4'' \<noteq> [] \<and> CHR '')'' \<notin> set ''4''" by simp
  from C3_units_and_instructors[of sample_block_no_header] n0
  have r0: "parse_units_and_instructors sample_block_no_header = (None, [])" by blast
  from C3_units_and_instructors[of sample_block_units_names ?names "''4-8''" "'' Smith, J.; Lee, K.''"]
    n1 n2 c1
  have "parse_units_and_instructors sample_block_units_names =
        (Some (norm_space ''4-8''), instructors_of (norm_space '' Smith, J.; Lee, K.''))" by blast
  then have r1: "parse_units_and_instructors sample_block_units_names =
        (Some ''4-8'', [''Smith, J.'', ''Lee, K.''])" unfolding n3 n4 .
  from C3_units_and_instructors[of sample_block_units_staff ?staff "''4''" "'' STAFF''"]
    s1 s2 c2
  have "parse_units_and_instructors sample_block_units_staff =
        (Some (norm_space ''4''), instructors_of (norm_space '' STAFF''))" by blast
  then have r2: "parse_units_and_instructors sample_block_units_staff = (Some ''4'', [''STAFF''])"
    unfolding s3 s4 .
  from C3_units_and_instructors[of sample_block_instructors_only ?only] o1 o3
  have "parse_units_and_instructors sample_block_instructors_only =
        (None, instructors_of (norm_space (get_text ?only)))" by blast
  then have r3: "parse_units_and_instructors sample_block_instructors_only =
        (None, [''Smith, J.'', ''Lee, K.''])" unfolding o2 o4 .
  from C3_units_and_instructors[of _ _ _ _ "''Staff''"] u1
  have r4: "instructors_of ''Staff'' = [''STAFF'']" by blast
  from n0 r0 n2 r1 r2 r3 r4 show ?thesis by blast
qed

text \<open>
  A text that begins with an empty pair of parentheses: the specification takes the
  empty content as the units and the rest as the instructor text;
  \<open>parse_units_and_instructors\<close> finds no units and takes the whole text, parentheses
  included, as the instructor.
\<close>

theorem C3_empty_parentheses_counterexample:
  "spec_parse_units_and_instructors sample_block_empty_units = (Some [], [''Smith, J.'']) \<and>
   parse_units_and_instructors sample_block_empty_units = (None, [''() Smith, J.''])"
  by code_simp

section \<open>The header\<close>

lemma header_match_E:
  assumes "st \<in> set (ms COURSE_HEADER_RE (0, txt, Map.empty))"
  obtains ws0 subj ws1 nd na ws2 ws3 ttl ws4 s' where
      "txt = ws0 @ subj @ ws1 @ nd @ na @ ws2 @ CHR ''.'' # ws3 @ ttl @ ws4 @ s'"
      "\<forall>x\<in>set ws0. is_space x"
      "2 \<le> length subj" "length subj \<le> 10" "\<forall>x\<in>set subj. is_upper_AZ x"
      "ws1 \<noteq> []" "\<forall>x\<in>set ws1. is_space x"
      "nd \<noteq> []" "length nd \<le> 3" "\<forall>x\<in>set nd. is_digit_09 x"
      "length na \<le> 6" "\<forall>x\<in>set na. is_upper_AZ x \<or> is_digit_09 x"
      "\<forall>x\<in>set ws2. is_space x" "\<forall>x\<in>set ws3. is_space x"
      "ttl \<noteq> []" "\<forall>x\<in>set ws4. is_space x" "s' = [] \<or> s' = [CHR 0x0A]"
      "snd (snd st) 1 = Some subj" "snd (snd st) 2 = Some (nd @ na)" "snd (snd st) 3 = Some ttl"
proof -
  let ?e = "Map.empty :: groups"
  from assms obtain st1 st2 st3 st4 st5 st6 st7 st8 st9 st10 where
      1: "st1 \<in> set (ms Bol (0, txt, ?e))"
  and 2: "st2 \<in> set (ms (Rep Space 0 None True) st1)"
  and 3: "st3 \<in> set (ms (Grp 1 (Rep Upper 2 (Some 10) True)) st2)"
  and 4: "st4 \<in> set (ms (Rep Space 1 None True) st3)"
  and 5: "st5 \<in> set (ms (Grp 2 (Seq (Rep Digit 1 (Some 3) True) (Rep UpperDigit 0 (Some 6) True))) st4)"
  and 6: "st6 \<in> set (ms (Rep Space 0 None True) st5)"
  and 7: "st7 \<in> set (ms (Chr (Lit CHR ''.'')) st6)"
  and 8: "st8 \<in> set (ms (Rep Space 0 None True) st7)"
  and 9: "st9 \<in> set (ms (Grp 3 (Rep Dot 1 None False)) st8)"
  and 10: "st10 \<in> set (ms (Rep Space 0 None True) st9)"
  and 11: "st \<in> set (ms Eol st10)"
    unfolding COURSE_HEADER_RE_def in_seq_Cons in_seq_Nil by blast
  from 1 have s1: "st1 = (0, txt, ?e)" unfolding at_Bol by simp
  from 2 obtain ws0 t2 where t2: "txt = ws0 @ t2" "\<forall>x \<in> set ws0. cmatch Space x"
    and s2: "st2 = (0 + length ws0, t2, ?e)"
    unfolding s1 at_Rep by blast
  from 3 obtain subj t3 where t3: "t2 = subj @ t3" "2 \<le> length subj" "at_most_opt (Some 10) (length subj)"
      "\<forall>x \<in> set subj. cmatch Upper x"
    and s3: "st3 = (0 + length ws0 + length subj, t3, ?e(1 \<mapsto> subj))"
    unfolding s2 at_Grp_Rep by blast
  from 4 obtain ws1 t4 where t4: "t3 = ws1 @ t4" "1 \<le> length ws1" "\<forall>x \<in> set ws1. cmatch Space x"
    and s4: "st4 = (0 + length ws0 + length subj + length ws1, t4, ?e(1 \<mapsto> subj))"
    unfolding s3 at_Rep by blast
  from 5 obtain nd na t5 where t5: "t4 = nd @ na @ t5" "1 \<le> length nd" "at_most_opt (Some 3) (length nd)"
      "\<forall>x \<in> set nd. cmatch Digit x" "at_most_opt (Some 6) (length na)" "\<forall>x \<in> set na. cmatch UpperDigit x"
    and s5: "st5 = (0 + length ws0 + length subj + length ws1 + length nd + length na, t5,
                    ?e(1 \<mapsto> subj, 2 \<mapsto> nd @ na))"
    unfolding s4 at_Grp_Seq_Rep by blast
  from 6 obtain ws2 t6 where t6: "t5 = ws2 @ t6" "\<forall>x \<in> set ws2. cmatch Space x"
    and s6: "st6 = (0 + length ws0 + length subj + length ws1 + length nd + length na + length ws2, t6,
                    ?e(1 \<mapsto> subj, 2 \<mapsto> nd @ na))"
    unfolding s5 at_Rep by blast
  from 7 obtain t7 where t7: "t6 = CHR ''.'' # t7"
    and s7: "st7 = (Suc (0 + length ws0 + length subj + length ws1 + length nd + length na + length ws2), t7,
                    ?e(1 \<mapsto> subj, 2 \<mapsto> nd @ na))"
    unfolding s6 at_Chr by auto
  from 8 obtain ws3 t8 where t8: "t7 = ws3 @ t8" "\<forall>x \<in> set ws3. cmatch Space x"
    and s8: "st8 = (Suc (0 + length ws0 + length subj + length ws1 + length nd + length na + length ws2)
                      + length ws3, t8, ?e(1 \<mapsto> subj, 2 \<mapsto> nd @ na))"
    unfolding s7 at_Rep by blast
  from 9 obtain ttl t9 where t9: "t8 = ttl @ t9" "1 \<le> length ttl"
    and s9: "st9 = (Suc (0 + length ws0 + length subj + length ws1 + length nd + length na + length ws2)
                      + length ws3 + length ttl, t9, ?e(1 \<mapsto> subj, 2 \<mapsto> nd @ na, 3 \<mapsto> ttl))"
    unfolding s8 at_Grp_Rep by blast
  from 10 obtain ws4 t10 where t10: "t9 = ws4 @ t10" "\<forall>x \<in> set ws4. cmatch Space x"
    and s10: "st10 = (Suc (0 + length ws0 + length subj + length ws1 + length nd + length na + length ws2)
                      + length ws3 + length ttl + length ws4, t10,
                      ?e(1 \<mapsto> subj, 2 \<mapsto> nd @ na, 3 \<mapsto> ttl))"
    unfolding s9 at_Rep by blast
  from 11 have t11: "t10 = [] \<or> t10 = [CHR 0x0A]" and s11: "st = st10"
    unfolding s10 at_Eol by simp_all
  have f1: "txt = ws0 @ subj @ ws1 @ nd @ na @ ws2 @ CHR ''.'' # ws3 @ ttl @ ws4 @ t10"
    using t2(1) t3(1) t4(1) t5(1) t6(1) t7 t8(1) t9(1) t10(1) by simp
  have f2: "\<forall>x\<in>set ws0. is_space x" using t2(2) by simp
  have f3: "2 \<le> length subj" and f4: "length subj \<le> 10" and f5: "\<forall>x\<in>set subj. is_upper_AZ x"
    using t3 by (simp_all add: at_most_opt_def)
  have f6: "ws1 \<noteq> []" and f7: "\<forall>x\<in>set ws1. is_space x" using t4 by auto
  have f8: "nd \<noteq> []" and f9: "length nd \<le> 3" and f10: "\<forall>x\<in>set nd. is_digit_09 x"
    using t5 by (auto simp: at_most_opt_def)
  have f11: "length na \<le> 6" and f12: "\<forall>x\<in>set na. is_upper_AZ x \<or> is_digit_09 x"
    using t5 by (simp_all add: at_most_opt_def)
  have f13: "\<forall>x\<in>set ws2. is_space x" and f14: "\<forall>x\<in>set ws3. is_space x"
    and f16: "\<forall>x\<in>set ws4. is_space x"
    using t6 t8 t10 by simp_all
  have f15: "ttl \<noteq> []" using t9(2) by auto
  have f18: "snd (snd st) 1 = Some subj" and f19: "snd (snd st) 2 = Some (nd @ na)"
    and f20: "snd (snd st) 3 = Some ttl"
    unfolding s11 s10 by simp_all
  show ?thesis
    by (rule that[OF f1 f2 f3 f4 f5 f6 f7 f8 f9 f10 f11 f12 f13 f14 f15 f16 t11 f18 f19 f20])
qed

lemma code_only_match_D:
  assumes "st \<in> set (ms COURSE_CODE_ONLY_RE (0, txt, Map.empty))"
  shows "\<exists>subj num. subj \<noteq> [] \<and> num \<noteq> [] \<and> snd (snd st) 1 = Some subj \<and> snd (snd st) 2 = Some num"
proof -
  let ?e = "Map.empty :: groups"
  from assms obtain st1 st2 st3 st4 st5 st6 where
      1: "st1 \<in> set (ms Bol (0, txt, ?e))"
  and 2: "st2 \<in> set (ms (Rep Space 0 None True) st1)"
  and 3: "st3 \<in> set (ms (Grp 1 (Rep Upper 2 (Some 10) True)) st2)"
  and 4: "st4 \<in> set (ms (Rep Space 1 None True) st3)"
  and 5: "st5 \<in> set (ms (Grp 2 (Seq (Rep Digit 1 (Some 3) True) (Rep UpperDigit 0 (Some 6) True))) st4)"
  and 6: "st6 \<in> set (ms (Rep Space 0 None True) st5)"
  and 7: "st \<in> set (ms Eol st6)"
    unfolding COURSE_CODE_ONLY_RE_def in_seq_Cons in_seq_Nil by blast
  from 1 have s1: "st1 = (0, txt, ?e)" unfolding at_Bol by simp
  from 2 obtain p2 t2 where s2: "st2 = (p2, t2, ?e)"
    unfolding s1 at_Rep by blast
  from 3 obtain subj p3 t3 where t3: "2 \<le> length subj"
    and s3: "st3 = (p3, t3, ?e(1 \<mapsto> subj))"
    unfolding s2 at_Grp_Rep by blast
  from 4 obtain p4 t4 where s4: "st4 = (p4, t4, ?e(1 \<mapsto> subj))"
    unfolding s3 at_Rep by blast
  from 5 obtain nd na p5 t5 where t5: "1 \<le> length nd"
    and s5: "st5 = (p5, t5, ?e(1 \<mapsto> subj, 2 \<mapsto> nd @ na))"
    unfolding s4 at_Grp_Seq_Rep by blast
  from 6 obtain p6 t6 where s6: "st6 = (p6, t6, ?e(1 \<mapsto> subj, 2 \<mapsto> nd @ na))"
    unfolding s5 at_Rep by blast
  from 7 have s7: "st = st6" unfolding s6 at_Eol by simp
  have "subj \<noteq> []" using t3 by auto
  moreover have "nd @ na \<noteq> []" using t5 by auto
  moreover have "snd (snd st) 1 = Some subj" "snd (snd st) 2 = Some (nd @ na)"
    unfolding s7 s6 by simp_all
  ultimately show ?thesis by blast
qed

lemma anywhere_match_D:
  assumes "st \<in> set (ms HEADER_ANYWHERE_RE (q, t, Map.empty))"
  shows "\<exists>subj num. subj \<noteq> [] \<and> num \<noteq> [] \<and> snd (snd st) 1 = Some subj \<and> snd (snd st) 2 = Some num"
proof -
  let ?e = "Map.empty :: groups"
  from assms obtain st3 st4 st5 st6 st7 st8 st9 st10 where
      3: "st3 \<in> set (ms (Grp 1 (Rep Upper 2 (Some 10) True)) (q, t, ?e))"
  and 4: "st4 \<in> set (ms (Rep Space 1 None True) st3)"
  and 5: "st5 \<in> set (ms (Grp 2 (Seq (Rep Digit 1 (Some 3) True) (Rep UpperDigit 0 (Some 6) True))) st4)"
  and 6: "st6 \<in> set (ms (Rep Space 0 None True) st5)"
  and 7: "st7 \<in> set (ms (Chr (Lit CHR ''.'')) st6)"
  and 8: "st8 \<in> set (ms (Rep Space 0 None True) st7)"
  and 9: "st9 \<in> set (ms (Grp 3 (Rep (NoneOf ''()'') 1 None False)) st8)"
  and 10: "st10 \<in> set (ms (Rep Space 0 None True) st9)"
  and 11: "st \<in> set (ms (Grp 4 (Alt (Chr (Lit CHR ''('')) Eol)) st10)"
    unfolding HEADER_ANYWHERE_RE_def in_seq_Cons in_seq_Nil by blast
  from 3 obtain subj p3 t3 where t3: "2 \<le> length subj"
    and s3: "st3 = (p3, t3, ?e(1 \<mapsto> subj))"
    unfolding at_Grp_Rep by blast
  from 4 obtain p4 t4 where s4: "st4 = (p4, t4, ?e(1 \<mapsto> subj))"
    unfolding s3 at_Rep by blast
  from 5 obtain nd na p5 t5 where t5: "1 \<le> length nd"
    and s5: "st5 = (p5, t5, ?e(1 \<mapsto> subj, 2 \<mapsto> nd @ na))"
    unfolding s4 at_Grp_Seq_Rep by blast
  from 6 obtain p6 t6 where s6: "st6 = (p6, t6, ?e(1 \<mapsto> subj, 2 \<mapsto> nd @ na))"
    unfolding s5 at_Rep by blast
  from 7 obtain p7 t7 where s7: "st7 = (p7, t7, ?e(1 \<mapsto> subj, 2 \<mapsto> nd @ na))"
    unfolding s6 at_Chr by blast
  from 8 obtain p8 t8 where s8: "st8 = (p8, t8, ?e(1 \<mapsto> subj, 2 \<mapsto> nd @ na))"
    unfolding s7 at_Rep by blast
  from 9 obtain ttl p9 t9 where s9: "st9 = (p9, t9, ?e(1 \<mapsto> subj, 2 \<mapsto> nd @ na, 3 \<mapsto> ttl))"
    unfolding s8 at_Grp_Rep by blast
  from 10 obtain p10 t10 where s10: "st10 = (p10, t10, ?e(1 \<mapsto> subj, 2 \<mapsto> nd @ na, 3 \<mapsto> ttl))"
    unfolding s9 at_Rep by blast
  from 11 obtain p' s' g0 where a: "(p', s', g0) \<in> set (ms (Alt (Chr (Lit CHR ''('')) Eol) st10)"
    and b: "st = (p', s', g0(4 \<mapsto> take (p' - p10) t10))"
    unfolding s10 at_Grp by blast
  from a have "(p', s', g0) \<in> set (ms (Chr (Lit CHR ''('')) st10) \<or> (p', s', g0) \<in> set (ms Eol st10)"
    unfolding in_ms_Alt .
  then have g0: "g0 = ?e(1 \<mapsto> subj, 2 \<mapsto> nd @ na, 3 \<mapsto> ttl)"
    unfolding s10 at_Chr at_Eol by auto
  have "subj \<noteq> []" using t3 by auto
  moreover have "nd @ na \<noteq> []" using t5 by auto
  moreover have "snd (snd st) 1 = Some subj" "snd (snd st) 2 = Some (nd @ na)"
    unfolding b g0 by simp_all
  ultimately show ?thesis by blast
qed

lemma header_groups_nonempty:
  assumes "re_match COURSE_HEADER_RE (norm_space s) = Some m"
  shows "group m 1 \<noteq> [] \<and> group m 2 \<noteq> [] \<and> norm_space (group m 3) \<noteq> []"
proof -
  let ?txt = "norm_space s"
  from re_match_Some[OF assms] obtain p' s' where
    "(p', s', m) \<in> set (ms COURSE_HEADER_RE (0, ?txt, Map.empty))" by blast
  then obtain ws0 subj ws1 nd na ws2 ws3 ttl ws4 t where
    d: "?txt = ws0 @ subj @ ws1 @ nd @ na @ ws2 @ CHR ''.'' # ws3 @ ttl @ ws4 @ t"
      "2 \<le> length subj" "nd \<noteq> []" "ttl \<noteq> []" "\<forall>x\<in>set ws4. is_space x"
      "t = [] \<or> t = [CHR 0x0A]"
      "snd (snd (p', s', m)) 1 = Some subj" "snd (snd (p', s', m)) 2 = Some (nd @ na)"
      "snd (snd (p', s', m)) 3 = Some ttl"
    by (rule header_match_E)
  have nl: "CHR 0x0A \<notin> set ?txt" by (rule norm_space_no_newline)
  with d(1,6) have t: "t = []" by auto
  have "norm_space ttl \<noteq> []"
  proof
    assume "norm_space ttl = []"
    then have sp: "\<forall>c \<in> set ttl. is_space c" by (simp add: norm_space_Nil_iff)
    from d(4) have ne: "ttl @ ws4 \<noteq> []" by simp
    from d(1) t have "?txt = (ws0 @ subj @ ws1 @ nd @ na @ ws2 @ CHR ''.'' # ws3) @ (ttl @ ws4)"
      by simp
    moreover from ne have "last ((ws0 @ subj @ ws1 @ nd @ na @ ws2 @ CHR ''.'' # ws3) @ (ttl @ ws4))
        = last (ttl @ ws4)" by (rule last_appendR)
    ultimately have "last ?txt = last (ttl @ ws4)" by (rule ssubst)
    moreover from ne have "last (ttl @ ws4) \<in> set (ttl @ ws4)" by (rule last_in_set)
    ultimately have "is_space (last ?txt)" using sp d(5) by auto
    moreover from d(1) have "?txt \<noteq> []" by simp
    ultimately show False using norm_space_last[of s] by simp
  qed
  moreover from d(2,7) have "group m 1 \<noteq> []" by (auto simp: group_def)
  moreover from d(3,8) have "group m 2 \<noteq> []" by (simp add: group_def)
  moreover from d(9) have "group m 3 = ttl" by (simp add: group_def)
  ultimately show ?thesis by simp
qed

lemma code_only_groups_nonempty:
  assumes "re_match COURSE_CODE_ONLY_RE txt = Some m"
  shows "group m 1 \<noteq> [] \<and> group m 2 \<noteq> []"
proof -
  from re_match_Some[OF assms] obtain p' s' where
    "(p', s', m) \<in> set (ms COURSE_CODE_ONLY_RE (0, txt, Map.empty))" by blast
  from code_only_match_D[OF this] show ?thesis by (auto simp: group_def)
qed

lemma anywhere_groups_nonempty:
  assumes "re_search HEADER_ANYWHERE_RE txt = Some m"
  shows "group m 1 \<noteq> [] \<and> group m 2 \<noteq> []"
proof -
  from assms have "search_from HEADER_ANYWHERE_RE 0 txt = Some m" by (simp add: re_search_def)
  from search_from_Some[OF this] obtain q t p' s' where
    "(p', s', m) \<in> set (ms HEADER_ANYWHERE_RE (q, t, Map.empty))" by blast
  from anywhere_match_D[OF this] show ?thesis by (auto simp: group_def)
qed

lemma header_from_id_title_nonempty:
  assumes "header_from_id_title course_div = Some (subj, num, ttl)"
  shows "subj \<noteq> [] \<and> num \<noteq> [] \<and> ttl \<noteq> []"
proof -
  from assms obtain id_title where
    sel: "select_one_class ''span'' ''CourseIdAndTitle'' (elem course_div) = Some id_title"
    by (auto simp: header_from_id_title_def split: option.splits)
  let ?txt = "norm_space (get_text id_title)"
  show ?thesis
  proof (cases "re_match COURSE_HEADER_RE ?txt")
    case (Some m)
    with assms sel have "(subj, num, ttl) = header_of_match m"
      by (simp add: header_from_id_title_def Let_def)
    with header_groups_nonempty[OF Some] show ?thesis by (simp add: header_of_match_def)
  next
    case None
    with assms sel obtain m2 where
      m2: "re_match COURSE_CODE_ONLY_RE (norm_space (fst (split_first CHR ''.'' ?txt))) = Some m2"
      and r: "ttl \<noteq> []" "subj = group m2 1" "num = group m2 2"
      by (auto simp: header_from_id_title_def Let_def split: if_splits option.splits prod.splits)
    with code_only_groups_nonempty[OF m2] show ?thesis by simp
  qed
qed

lemma header_from_first_b_nonempty:
  assumes "header_from_first_b course_div = Some (subj, num, ttl)"
  shows "subj \<noteq> [] \<and> num \<noteq> [] \<and> ttl \<noteq> []"
proof -
  from assms obtain b m where
    m: "re_match COURSE_HEADER_RE (norm_space (get_text b)) = Some m"
    and r: "(subj, num, ttl) = header_of_match m"
    by (auto simp: header_from_first_b_def split: option.splits)
  with header_groups_nonempty[OF m] show ?thesis by (simp add: header_of_match_def)
qed

lemma header_from_full_text_nonempty:
  assumes "header_from_full_text course_div = Some (subj, num, ttl)"
  shows "subj \<noteq> [] \<and> num \<noteq> [] \<and> ttl \<noteq> []"
proof -
  from assms obtain m where
    m: "re_search HEADER_ANYWHERE_RE (norm_space (get_text (elem course_div))) = Some m"
    and r: "ttl \<noteq> []" "subj = group m 1" "num = group m 2"
    by (auto simp: header_from_full_text_def Let_def split: option.splits if_splits)
  with anywhere_groups_nonempty[OF m] show ?thesis by simp
qed

lemma extract_course_header_nonempty:
  assumes "extract_course_header course_div = Some (subj, num, ttl)"
  shows "subj \<noteq> [] \<and> num \<noteq> [] \<and> ttl \<noteq> []"
proof (cases "header_from_id_title course_div")
  case (Some h)
  with assms have "header_from_id_title course_div = Some (subj, num, ttl)"
    by (simp add: extract_course_header_def)
  then show ?thesis by (rule header_from_id_title_nonempty)
next
  case None
  note n1 = None
  show ?thesis
  proof (cases "header_from_first_b course_div")
    case (Some h)
    with assms n1 have "header_from_first_b course_div = Some (subj, num, ttl)"
      by (simp add: extract_course_header_def)
    then show ?thesis by (rule header_from_first_b_nonempty)
  next
    case None
    with assms n1 have "header_from_full_text course_div = Some (subj, num, ttl)"
      by (simp add: extract_course_header_def)
    then show ?thesis by (rule header_from_full_text_nonempty)
  qed
qed

text \<open>
  Claim C1.  When \<open>parse_course\<close> returns a record for a block, the subject, the number
  and the title of the record are not empty.
\<close>

theorem C1_record_has_subject_number_title:
  assumes "parse_course course_div url = Some c"
  shows "subject c \<noteq> [] \<and> number c \<noteq> [] \<and> title c \<noteq> []"
proof -
  from assms obtain subj num ttl where
    h: "extract_course_header course_div = Some (subj, num, ttl)"
    by (auto simp: parse_course_def split: option.splits)
  with assms have "subject c = subj" "number c = num" "title c = ttl"
    by (auto simp: parse_course_def Let_def split: prod.splits)
  with extract_course_header_nonempty[OF h] show ?thesis by simp
qed

theorem C1_record_has_subject_number_title_witness:
  "parse_course sample_block_course ''u'' = Some sample_course \<and>
   subject sample_course \<noteq> [] \<and> number sample_course \<noteq> [] \<and> title sample_course \<noteq> []"
proof -
  have h: "parse_course sample_block_course ''u'' = Some sample_course" by code_simp
  from C1_record_has_subject_number_title[OF h] h show ?thesis by blast
qed

section \<open>The description\<close>

lemma description_loop_keeps:
  "\<not> str_in lbl best \<Longrightarrow> lbl = ''Prerequisite:'' \<or> lbl = ''Recommended Preparation:''
    \<Longrightarrow> \<not> str_in lbl (description_loop ds best)"
  by (induction ds arbitrary: best) (auto simp: Let_def)

text \<open>
  Claim C6.  For every course block, the string that \<open>extract_description\<close> returns
  contains neither \<open>Prerequisite:\<close> nor \<open>Recommended Preparation:\<close> as a substring.
\<close>

theorem C6_description_without_labels:
  "\<not> sublist ''Prerequisite:'' (extract_description course_div) \<and>
   \<not> sublist ''Recommended Preparation:'' (extract_description course_div)"
proof -
  have "\<not> str_in ''Prerequisite:'' (extract_description course_div)"
    unfolding extract_description_def by (rule description_loop_keeps) simp_all
  moreover have "\<not> str_in ''Recommended Preparation:'' (extract_description course_div)"
    unfolding extract_description_def by (rule description_loop_keeps) simp_all
  ultimately show ?thesis by (simp add: str_in_sublist)
qed

theorem C6_description_without_labels_witness:
  "extract_description sample_block_two_divs = ''Sets and logic.'' \<and>
   \<not> sublist ''Prerequisite:'' (extract_description sample_block_two_divs) \<and>
   \<not> sublist ''Recommended Preparation:'' (extract_description sample_block_two_divs)"
proof -
  have e: "extract_description sample_block_two_divs = ''Sets and logic.''" by code_simp
  from C6_description_without_labels[of sample_block_two_divs] e show ?thesis by blast
qed







section \<open>The labeled fields\<close>






end
